theory Spec2Isabelle
  imports Complex_Main
begin

section \<open>Strings: \<open>str.lower\<close> and the substring test \<open>in\<close>\<close>

text \<open>
  Labels and keywords are ASCII strings (ImageNet class names and the literals of
  \<^verbatim>\<open>config.py\<close>). \<open>lower\<close> is Python's \<^verbatim>\<open>str.lower()\<close> on ASCII: each of the
  letters \<open>A\<close>..\<open>Z\<close> moves to its lower-case letter, every other character stays.
\<close>

definition ascii_uppercase :: string where
  "ascii_uppercase = ''ABCDEFGHIJKLMNOPQRSTUVWXYZ''"

definition ascii_lowercase :: string where
  "ascii_lowercase = ''abcdefghijklmnopqrstuvwxyz''"

definition char_lower :: "char \<Rightarrow> char" where
  "char_lower c =
     (case map_of (zip ascii_uppercase ascii_lowercase) c of Some l \<Rightarrow> l | None \<Rightarrow> c)"

definition lower :: "string \<Rightarrow> string" where
  "lower s = map char_lower s"

text \<open>
  \<open>str_in k s\<close> is Python's \<^verbatim>\<open>k in s\<close> on strings: \<open>k\<close> occurs in \<open>s\<close> as a
  contiguous substring (the empty string occurs in every string).
\<close>

fun startswith :: "string \<Rightarrow> string \<Rightarrow> bool" where
  "startswith [] s = True"
| "startswith (x # k) [] = False"
| "startswith (x # k) (y # s) = (x = y \<and> startswith k s)"

fun str_in :: "string \<Rightarrow> string \<Rightarrow> bool" where
  "str_in k [] = (k = [])"
| "str_in k (y # s) = (startswith k (y # s) \<or> str_in k s)"

section \<open>Dictionaries in insertion order\<close>

text \<open>
  A Python \<^verbatim>\<open>dict\<close> iterates in insertion order, and \<^verbatim>\<open>max\<close> over its items depends on
  that order, so a dictionary is an association list with distinct keys, oldest key
  first. \<open>dict_set\<close> is \<^verbatim>\<open>d[k] = v\<close>: an existing key keeps its position, a new key goes
  to the end. Reading a key is \<open>map_of\<close>.
\<close>

type_synonym ('k, 'v) dict = "('k \<times> 'v) list"

fun dict_set :: "'k \<Rightarrow> 'v \<Rightarrow> ('k, 'v) dict \<Rightarrow> ('k, 'v) dict" where
  "dict_set k v [] = [(k, v)]"
| "dict_set k v ((k', v') # d) =
     (if k' = k then (k', v) # d else (k', v') # dict_set k v d)"

text \<open>\<^verbatim>\<open>d.get(k, default)\<close>.\<close>

definition dict_get :: "('k, 'v) dict \<Rightarrow> 'k \<Rightarrow> 'v \<Rightarrow> 'v" where
  "dict_get d k dflt = (case map_of d k of Some v \<Rightarrow> v | None \<Rightarrow> dflt)"

section \<open>Configuration (\<^verbatim>\<open>config.py\<close>)\<close>

type_synonym category_map = "(string, string list) dict"

definition ANIMAL_CATEGORIES :: category_map where
  "ANIMAL_CATEGORIES =
    [(''ostrich'', [''ostrich'', ''common_ostrich'', ''African_ostrich'']),
     (''bird'', [''bird'', ''crane'', ''peacock'', ''hornbill'', ''vulture'', ''eagle'',
                 ''bustard'', ''stork'']),
     (''elephant'', [''elephant'', ''African_elephant'', ''Indian_elephant'', ''tusker'']),
     (''monkey'', [''monkey'', ''macaque'', ''baboon'', ''chimpanzee'', ''gorilla'',
                   ''orangutan'', ''langur'', ''colobus'']),
     (''giraffe'', [''giraffe'', ''reticulated_giraffe'']),
     (''zebra'', [''zebra'', ''plains_zebra'', ''Grevy_zebra'']),
     (''lion'', [''lion'', ''male_lion'', ''lioness'', ''African_lion'']),
     (''lion_cub'', [''lion_cub'', ''cub'', ''young_lion'', ''cat_baby'']),
     (''leopard'', [''leopard'', ''spotted_leopard'']),
     (''cheetah'', [''cheetah'', ''spotted_cat'', ''running_cat'']),
     (''buffalo'', [''buffalo'', ''African_buffalo'', ''water_buffalo'', ''cape_buffalo'']),
     (''antelope'', [''antelope'', ''gazelle'', ''impala'', ''kudu'', ''springbok'',
                     ''gemsbok'', ''oryx'']),
     (''wildebeest'', [''wildebeest'', ''gnu'', ''blue_wildebeest'']),
     (''hippopotamus'', [''hippopotamus'', ''hippo'', ''river_horse'']),
     (''crocodile'', [''crocodile'', ''Nile_crocodile'', ''alligator'']),
     (''hyena'', [''hyena'', ''spotted_hyena'', ''striped_hyena''])]"

definition LANDSCAPE_CATEGORIES :: category_map where
  "LANDSCAPE_CATEGORIES =
    [(''river'', [''river'', ''stream'', ''waterfall'', ''waterway'', ''creek'', ''rapids'']),
     (''savannah'', [''savannah'', ''grassland'', ''plain'', ''prairie'', ''veldt'', ''steppe'']),
     (''forest'', [''forest'', ''woodland'', ''jungle'', ''trees'', ''rainforest'', ''grove'']),
     (''bush'', [''bush'', ''shrubland'', ''thicket'', ''scrub'', ''brush'', ''undergrowth'']),
     (''mountain'', [''mountain'', ''hill'', ''cliff'', ''ridge'', ''peak'', ''highland'']),
     (''wetland'', [''wetland'', ''marsh'', ''swamp'', ''bog'', ''fen'', ''mangrove'']),
     (''desert'', [''desert'', ''dune'', ''sand'', ''arid'', ''wasteland'']),
     (''lake'', [''lake'', ''pond'', ''reservoir'', ''lagoon'', ''water_body'']),
     (''valley'', [''valley'', ''gorge'', ''ravine'', ''canyon'', ''depression''])]"

definition CONFIDENCE_THRESHOLDS :: "(string, real) dict" where
  "CONFIDENCE_THRESHOLDS =
    [(''lion_cub'', 3 / 10), (''bird'', 4 / 10), (''default'', 35 / 100),
     (''landscape'', 15 / 100)]"

section \<open>The score aggregator of \<^verbatim>\<open>_predict_animal\<close>\<close>

text \<open>
  A decoded prediction is the triple \<^verbatim>\<open>(class_id, label, confidence)\<close> of
  \<^verbatim>\<open>decode_predictions\<close>. A confidence is the real number that the floating-point
  value denotes; comparing and sorting them is exact in the program too.
\<close>

type_synonym prediction = "string \<times> string \<times> real"

text \<open>
  Lines 74 to 76: \<^verbatim>\<open>if category not in pred_scores: pred_scores[category] = []\<close>, then
  \<^verbatim>\<open>pred_scores[category].append(conf)\<close>.
\<close>

fun append_score :: "string \<Rightarrow> real \<Rightarrow> (string, real list) dict \<Rightarrow> (string, real list) dict" where
  "append_score category conf [] = [(category, [conf])]"
| "append_score category conf ((k, scores) # d) =
     (if k = category then (k, scores @ [conf]) # d
      else (k, scores) # append_score category conf d)"

text \<open>Line 73: \<^verbatim>\<open>any(similar in label.lower() for similar in similar_labels)\<close>.\<close>

definition label_matches :: "string list \<Rightarrow> string \<Rightarrow> bool" where
  "label_matches similar_labels label =
     list_ex (\<lambda>similar. str_in similar (lower label)) similar_labels"

text \<open>Lines 72 to 76: the inner loop over the categories, for one prediction.\<close>

fun match_categories ::
  "category_map \<Rightarrow> string \<Rightarrow> real \<Rightarrow> (string, real list) dict \<Rightarrow> (string, real list) dict" where
  "match_categories [] label conf pred_scores = pred_scores"
| "match_categories ((category, similar_labels) # cats) label conf pred_scores =
     match_categories cats label conf
       (if label_matches similar_labels label
        then append_score category conf pred_scores
        else pred_scores)"

text \<open>Lines 70 to 76: the outer loop over \<^verbatim>\<open>predictions_combined\<close>.\<close>

fun collect_scores ::
  "category_map \<Rightarrow> prediction list \<Rightarrow> (string, real list) dict \<Rightarrow> (string, real list) dict" where
  "collect_scores cats [] pred_scores = pred_scores"
| "collect_scores cats ((class_id, label, conf) # predictions) pred_scores =
     collect_scores cats predictions (match_categories cats label conf pred_scores)"

text \<open>
  \<^verbatim>\<open>np.mean\<close> of a non-empty list, idealised: the exact arithmetic mean, where the
  program rounds each addition and the division. The rounding is modelled apart, in
  \<open>np_mean_f64\<close>, and the loop of lines 79 to 83 is also given with \<^verbatim>\<open>np.mean\<close> as a
  parameter, in \<open>final_scores_by\<close>.
\<close>

definition mean :: "real list \<Rightarrow> real" where
  "mean xs = sum_list xs / real (length xs)"

text \<open>Line 81: \<^verbatim>\<open>sorted(scores, reverse=True)[:3]\<close>.\<close>

definition top_scores :: "real list \<Rightarrow> real list" where
  "top_scores scores = take 3 (rev (sort scores))"

text \<open>Lines 79 to 83: the loop that fills \<^verbatim>\<open>final_predictions\<close>.\<close>

fun final_scores ::
  "(string, real list) dict \<Rightarrow> (string, real) dict \<Rightarrow> (string, real) dict" where
  "final_scores [] final_predictions = final_predictions"
| "final_scores ((category, scores) # pred_scores) final_predictions =
     final_scores pred_scores
       (if top_scores scores \<noteq> []
        then dict_set category (mean (top_scores scores)) final_predictions
        else final_predictions)"

text \<open>The AggregatedScore of the specification: \<^verbatim>\<open>final_predictions\<close> after both loops.\<close>

definition aggregated_score :: "category_map \<Rightarrow> prediction list \<Rightarrow> (string, real) dict" where
  "aggregated_score cats predictions = final_scores (collect_scores cats predictions []) []"

text \<open>
  Line 87: \<^verbatim>\<open>max(final_predictions.items(), key=lambda x: x[1])\<close>. Python's \<^verbatim>\<open>max\<close> keeps
  the first of several maximal items: a later item replaces the best one only when its
  key is strictly greater.
\<close>

fun max_by_score :: "string \<times> real \<Rightarrow> (string \<times> real) list \<Rightarrow> string \<times> real" where
  "max_by_score best [] = best"
| "max_by_score best (x # xs) = max_by_score (if snd best < snd x then x else best) xs"

text \<open>Lines 86 to 90.\<close>

definition best_prediction :: "(string, real) dict \<Rightarrow> string option \<times> real" where
  "best_prediction final_predictions =
     (case final_predictions of
        [] \<Rightarrow> (None, 0)
      | x # xs \<Rightarrow> (let best_category = max_by_score x xs
                  in (Some (fst best_category), snd best_category)))"

definition aggregate :: "category_map \<Rightarrow> prediction list \<Rightarrow> string option \<times> real" where
  "aggregate cats predictions = best_prediction (aggregated_score cats predictions)"

section \<open>\<^verbatim>\<open>np.mean\<close> as a parameter, and in binary64\<close>

text \<open>Lines 79 to 83 again, for any function in the place of \<^verbatim>\<open>np.mean\<close>.\<close>

fun final_scores_by ::
  "(real list \<Rightarrow> real) \<Rightarrow> (string, real list) dict \<Rightarrow> (string, real) dict \<Rightarrow> (string, real) dict" where
  "final_scores_by np_mean [] final_predictions = final_predictions"
| "final_scores_by np_mean ((category, scores) # pred_scores) final_predictions =
     final_scores_by np_mean pred_scores
       (if top_scores scores \<noteq> []
        then dict_set category (np_mean (top_scores scores)) final_predictions
        else final_predictions)"

text \<open>The number of binary digits of a natural number.\<close>

fun bit_length :: "nat \<Rightarrow> nat" where
  "bit_length n = (if n = 0 then 0 else Suc (bit_length (n div 2)))"

declare bit_length.simps [simp del]

text \<open>
  The binary exponent of a positive real \<open>x\<close>: the integer \<open>e\<close> with
  \<open>2^e \<le> x < 2^(e+1)\<close>.
\<close>

definition binade :: "real \<Rightarrow> int" where
  "binade x =
     (if 1 \<le> x then int (bit_length (nat \<lfloor>x\<rfloor>)) - 1
      else - int (bit_length (nat (\<lceil>1 / x\<rceil> - 1))))"

text \<open>The power of two with an integer exponent.\<close>

definition scale2 :: "int \<Rightarrow> real" where
  "scale2 k = (if 0 \<le> k then 2 ^ nat k else 1 / 2 ^ nat (- k))"

text \<open>Rounding to the nearest integer, a tie going to the even one.\<close>

definition round_half_even :: "real \<Rightarrow> int" where
  "round_half_even q =
     (let f = \<lfloor>q\<rfloor>; d = q - of_int f
      in if d < 1 / 2 then f else if 1 / 2 < d then f + 1 else if even f then f else f + 1)"

text \<open>
  The binary64 number nearest to a real, ties to even, for the normal range (no overflow,
  no subnormal numbers): the significand is rounded to 53 binary digits.
\<close>

definition fl64 :: "real \<Rightarrow> real" where
  "fl64 x =
     (if x = 0 then 0
      else sgn x * of_int (round_half_even (\<bar>x\<bar> * scale2 (52 - binade \<bar>x\<bar>)))
             * scale2 (binade \<bar>x\<bar> - 52))"




section \<open>The ensemble of \<^verbatim>\<open>_predict_animal\<close>\<close>

text \<open>A raised Python exception, with its message \<^verbatim>\<open>str(e)\<close>.\<close>

datatype exn = Exception string

text \<open>
  The classifiers are external. What one model does on the image is given: either an
  exception (from \<^verbatim>\<open>load_img\<close>, the preprocessing, \<^verbatim>\<open>model.predict\<close> or
  \<^verbatim>\<open>decode_predictions\<close>), or, for each of the four augmented images, its decoded
  top-10 predictions.
\<close>

type_synonym classifier_run = "exn + prediction list list"

definition model_names :: "string list" where
  "model_names = [''resnet'', ''efficient'', ''dense'']"

text \<open>
  Lines 55 to 67: the loop over the models. It has no handler of its own: an exception
  of one model leaves the loop, and the predictions collected so far are dropped.
\<close>

fun run_models ::
  "(string \<Rightarrow> classifier_run) \<Rightarrow> string list \<Rightarrow> prediction list \<Rightarrow> exn + prediction list" where
  "run_models classify [] predictions_combined = Inr predictions_combined"
| "run_models classify (model_name # names) predictions_combined =
     (case classify model_name of
        Inl e \<Rightarrow> Inl e
      | Inr preds \<Rightarrow> run_models classify names (predictions_combined @ concat preds))"

text \<open>
  The processor object (\<^verbatim>\<open>self\<close>). Methods take it and return it: \<^verbatim>\<open>processed_count\<close>
  is the only field a method assigns.
\<close>

record processor =
  source_dir :: string
  backup_dir :: string
  processed_count :: nat
  animal_categories :: category_map
  landscape_categories :: category_map

text \<open>
  Lines 39 to 94: \<^verbatim>\<open>_predict_animal\<close>. The \<^verbatim>\<open>try\<close> spans the whole body, and its handler
  logs and returns \<^verbatim>\<open>(None, 0.0)\<close>.
\<close>

definition predict_animal ::
  "processor \<Rightarrow> (string \<Rightarrow> classifier_run) \<Rightarrow> (string option \<times> real) \<times> processor" where
  "predict_animal self classify =
     (case run_models classify model_names [] of
        Inl e \<Rightarrow> ((None, 0), self)
      | Inr predictions_combined \<Rightarrow>
          (aggregate (animal_categories self) predictions_combined, self))"

section \<open>\<^verbatim>\<open>_predict_landscape\<close>\<close>

text \<open>\<^verbatim>\<open>d[k]\<close>: a missing key raises \<^verbatim>\<open>KeyError\<close>, whose message is the quoted key.\<close>

definition dict_index :: "(string, 'v) dict \<Rightarrow> string \<Rightarrow> exn + 'v" where
  "dict_index d k =
     (case map_of d k of
        Some v \<Rightarrow> Inr v
      | None \<Rightarrow> Inl (Exception ([CHR 0x27] @ k @ [CHR 0x27])))"

text \<open>
  Lines 117 to 121: the loop over the landscape categories, for one prediction whose
  label is already in lower case.
\<close>

fun landscape_categories_loop ::
  "category_map \<Rightarrow> string \<Rightarrow> real \<Rightarrow> string list \<Rightarrow> exn + string list" where
  "landscape_categories_loop [] label confidence detected_features = Inr detected_features"
| "landscape_categories_loop ((category, keywords) # cats) label confidence detected_features =
     (if list_ex (\<lambda>keyword. str_in keyword label) keywords
      then (case dict_index CONFIDENCE_THRESHOLDS ''landscape'' of
              Inl e \<Rightarrow> Inl e
            | Inr threshold \<Rightarrow>
                landscape_categories_loop cats label confidence
                  (if threshold < confidence \<and> category \<notin> set detected_features
                   then detected_features @ [category]
                   else detected_features))
      else landscape_categories_loop cats label confidence detected_features)"

text \<open>Lines 115 to 121: the loop over the predictions.\<close>

fun landscape_loop ::
  "category_map \<Rightarrow> prediction list \<Rightarrow> string list \<Rightarrow> exn + string list" where
  "landscape_loop cats [] detected_features = Inr detected_features"
| "landscape_loop cats ((pred_class, label, confidence) # predictions) detected_features =
     (case landscape_categories_loop cats (lower label) confidence detected_features of
        Inl e \<Rightarrow> Inl e
      | Inr detected \<Rightarrow> landscape_loop cats predictions detected)"

text \<open>
  Lines 96 to 127. The landscape model's run on the image is given: an exception, or
  its decoded top-15 predictions. The handler returns the empty list.
\<close>

definition predict_landscape :: "processor \<Rightarrow> exn + prediction list \<Rightarrow> string list" where
  "predict_landscape self landscape_run =
     (case landscape_run of
        Inl e \<Rightarrow> []
      | Inr predictions \<Rightarrow>
          (case landscape_loop (landscape_categories self) predictions [] of
             Inl e \<Rightarrow> []
           | Inr detected_features \<Rightarrow> detected_features))"

section \<open>Files, renaming and metadata\<close>

text \<open>
  A path is its directory and its final component. \<open>path_suffix\<close> is pathlib's
  \<^verbatim>\<open>suffix\<close>: the final component from its last dot on, unless that dot is its first
  or its last character.
\<close>

record path =
  parent :: string
  name :: string

definition path_suffix :: "string \<Rightarrow> string" where
  "path_suffix nm =
     (let ext = rev (takeWhile (\<lambda>c. c \<noteq> CHR ''.'') (rev nm))
      in if CHR ''.'' \<in> set nm \<and> length ext + 1 < length nm \<and> ext \<noteq> []
         then CHR ''.'' # ext else [])"

text \<open>The format \<^verbatim>\<open>:04d\<close>: decimal digits, filled with zeros to four characters.\<close>

fun digits :: "nat \<Rightarrow> string" where
  "digits n =
     (if n < 10 then [''0123456789'' ! n]
      else digits (n div 10) @ [''0123456789'' ! (n mod 10)])"

definition format_04d :: "nat \<Rightarrow> string" where
  "format_04d n = replicate (4 - length (digits n)) CHR ''0'' @ digits n"

text \<open>\<^verbatim>\<open>sep.join(xs)\<close>.\<close>

fun join :: "string \<Rightarrow> string list \<Rightarrow> string" where
  "join sep [] = []"
| "join sep [x] = x"
| "join sep (x # y # xs) = x @ sep @ join sep (y # xs)"

text \<open>
  An image file is its image data, kept abstract, and the EXIF user comment it carries,
  if any. The file system maps a path to the file there.
\<close>

record image_file =
  image_data :: nat
  user_comment :: "string option"

type_synonym filesystem = "path \<Rightarrow> image_file option"

text \<open>
  What the world outside the program does while one image is processed: whether
  \<^verbatim>\<open>shutil.copy2\<close> raises, the runs of the models, the date (as \<^verbatim>\<open>%Y%m%d\<close>), and the
  exception of \<^verbatim>\<open>Path.rename\<close> if it raises.
\<close>

record env =
  copy_fails :: bool
  classify_run :: "string \<Rightarrow> classifier_run"
  landscape_run :: "exn + prediction list"
  today :: string
  rename_error :: "exn option"

text \<open>Lines 175 to 184: \<^verbatim>\<open>_backup_image\<close>. A missing source file makes the copy raise.\<close>

definition backup_image ::
  "processor \<Rightarrow> filesystem \<Rightarrow> env \<Rightarrow> path \<Rightarrow> bool \<times> filesystem" where
  "backup_image self fs e img_path =
     (case fs img_path of
        None \<Rightarrow> (False, fs)
      | Some f \<Rightarrow>
          if copy_fails e then (False, fs)
          else (True, fs(\<lparr>parent = backup_dir self, name = name img_path\<rparr> \<mapsto> f)))"

text \<open>Lines 129 to 141: \<^verbatim>\<open>_generate_new_filename\<close>.\<close>

definition generate_new_filename ::
  "processor \<Rightarrow> env \<Rightarrow> path \<Rightarrow> string \<Rightarrow> string list \<Rightarrow> path \<times> processor" where
  "generate_new_filename self e original_path animal_name features =
     (let self' = self\<lparr>processed_count := processed_count self + 1\<rparr>;
          timestamp = today e;
          sequence = format_04d (processed_count self');
          extension = lower (path_suffix (name original_path));
          landscape_str = (if features \<noteq> [] then join ''_'' features else ''general'');
          new_name = animal_name @ ''_'' @ landscape_str @ ''_'' @ timestamp @ ''_''
                       @ sequence @ extension
      in (\<lparr>parent = parent original_path, name = new_name\<rparr>, self'))"

text \<open>
  Lines 143 to 173: \<^verbatim>\<open>_add_metadata_tags\<close>. The file is never written. Either
  \<^verbatim>\<open>piexif.load\<close> raises at line 147, or line 159 raises \<^verbatim>\<open>AttributeError\<close>: it reads
  \<^verbatim>\<open>piexif.helper\<close>, a submodule that \<^verbatim>\<open>import piexif\<close> does not load and that no module
  of the program imports. The handler of line 172 logs a warning in both cases, before
  \<^verbatim>\<open>piexif.insert\<close> of line 168 is reached.
\<close>

definition add_metadata_tags ::
  "filesystem \<Rightarrow> env \<Rightarrow> path \<Rightarrow> string \<Rightarrow> real \<Rightarrow> string list \<Rightarrow> filesystem" where
  "add_metadata_tags fs e img_path animal_name conf features = fs"

text \<open>\<^verbatim>\<open>img_path.rename(new_path)\<close>, when it does not raise.\<close>

definition rename_file :: "filesystem \<Rightarrow> path \<Rightarrow> path \<Rightarrow> filesystem" where
  "rename_file fs img_path new_path = (fs(img_path := None))(new_path := fs img_path)"

section \<open>\<^verbatim>\<open>process_single_image\<close>\<close>

record result =
  original_name :: string
  success :: bool
  new_name :: "string option"
  animal :: "string option"
  confidence :: "real option"
  landscape_features :: "string list option"
  error :: "string option"

text \<open>Lines 189 to 197.\<close>

definition initial_results :: "path \<Rightarrow> result" where
  "initial_results img_path =
     \<lparr>original_name = name img_path, success = False, new_name = None, animal = None,
      confidence = None, landscape_features = None, error = None\<rparr>"

text \<open>
  Lines 220 to 230: the branch taken when the gate accepts. An exception of the rename
  reaches the handler of line 234, after the counter has moved.
\<close>

definition rename_and_tag ::
  "processor \<Rightarrow> filesystem \<Rightarrow> env \<Rightarrow> path \<Rightarrow> result \<Rightarrow> string \<Rightarrow> real \<Rightarrow> string list
     \<Rightarrow> result \<times> processor \<times> filesystem" where
  "rename_and_tag self fs e img_path results animal_name conf features =
     (let (new_path, self') = generate_new_filename self e img_path animal_name features;
          fs' = add_metadata_tags fs e img_path animal_name conf features
      in case rename_error e of
           Some (Exception msg) \<Rightarrow> (results\<lparr>error := Some msg\<rparr>, self', fs')
         | None \<Rightarrow>
             (results\<lparr>new_name := Some (name new_path), success := True\<rparr>, self',
              rename_file fs' img_path new_path))"

text \<open>Line 232: the branch taken when the gate rejects.\<close>

definition low_confidence :: "result \<Rightarrow> result" where
  "low_confidence results = results\<lparr>error := Some ''Low confidence prediction''\<rparr>"

text \<open>
  Lines 216 and 217: \<^verbatim>\<open>CONFIDENCE_THRESHOLDS.get(animal_name, CONFIDENCE_THRESHOLDS['default'])\<close>.
  The key \<^verbatim>\<open>None\<close> is in no dictionary of strings.
\<close>

definition lookup_threshold :: "string option \<Rightarrow> exn + real" where
  "lookup_threshold animal_name =
     (case dict_index CONFIDENCE_THRESHOLDS ''default'' of
        Inl e \<Rightarrow> Inl e
      | Inr dflt \<Rightarrow>
          Inr (case animal_name of
                 None \<Rightarrow> dflt
               | Some a \<Rightarrow> dict_get CONFIDENCE_THRESHOLDS a dflt))"

text \<open>
  Lines 186 to 237. In line 219, \<^verbatim>\<open>animal_name and confidence > threshold\<close> holds when
  \<^verbatim>\<open>animal_name\<close> is a non-empty string and the comparison holds.
\<close>

definition process_single_image ::
  "processor \<Rightarrow> filesystem \<Rightarrow> env \<Rightarrow> path \<Rightarrow> result \<times> processor \<times> filesystem" where
  "process_single_image self fs e img_path =
     (let results = initial_results img_path
      in case backup_image self fs e img_path of
           (False, fs1) \<Rightarrow> (results\<lparr>error := Some ''Backup failed''\<rparr>, self, fs1)
         | (True, fs1) \<Rightarrow>
             (let ((animal_name, conf), self1) = predict_animal self (classify_run e);
                  features = predict_landscape self1 (landscape_run e);
                  results = results\<lparr>animal := animal_name, confidence := Some conf,
                                     landscape_features := Some features\<rparr>
              in case lookup_threshold animal_name of
                   Inl (Exception msg) \<Rightarrow> (results\<lparr>error := Some msg\<rparr>, self1, fs1)
                 | Inr threshold \<Rightarrow>
                     (case animal_name of
                        None \<Rightarrow> (low_confidence results, self1, fs1)
                      | Some a \<Rightarrow>
                          if a \<noteq> [] \<and> threshold < conf
                          then rename_and_tag self1 fs1 e img_path results a conf features
                          else (low_confidence results, self1, fs1))))"

section \<open>The specification's notions\<close>

text \<open>
  A keyword is a case-insensitive substring of a raw label when it occurs in the label
  once the case of both is ignored.
\<close>

definition ci_substring :: "string \<Rightarrow> string \<Rightarrow> bool" where
  "ci_substring keyword label = str_in (lower keyword) (lower label)"

definition ci_matches :: "string list \<Rightarrow> string \<Rightarrow> bool" where
  "ci_matches keywords label = list_ex (\<lambda>keyword. ci_substring keyword label) keywords"

text \<open>The confidences of the predictions that satisfy a test on their label, in order.\<close>

definition confidences_where :: "(string \<Rightarrow> bool) \<Rightarrow> prediction list \<Rightarrow> real list" where
  "confidences_where P predictions =
     map (\<lambda>(class_id, label, conf). conf)
       (filter (\<lambda>(class_id, label, conf). P label) predictions)"

text \<open>
  The order in which categories are first seen: the predictions in their order, for each
  prediction the matching categories in the order of the category map, each category
  at its first occurrence only.
\<close>

definition note_seen :: "'a \<Rightarrow> 'a list \<Rightarrow> 'a list" where
  "note_seen c seen = (if c \<in> set seen then seen else seen @ [c])"

definition matched_categories :: "category_map \<Rightarrow> string \<Rightarrow> string list" where
  "matched_categories cats label =
     map fst (filter (\<lambda>(category, keywords). label_matches keywords label) cats)"

definition first_seen_order :: "category_map \<Rightarrow> prediction list \<Rightarrow> string list" where
  "first_seen_order cats predictions =
     fold note_seen
       (concat (map (\<lambda>(class_id, label, conf). matched_categories cats label) predictions)) []"

text \<open>
  The predictions the specification keeps when classifiers fail: a failed classifier
  contributes none, every other classifier contributes all of its own.
\<close>

definition surviving_predictions ::
  "(string \<Rightarrow> classifier_run) \<Rightarrow> string list \<Rightarrow> prediction list" where
  "surviving_predictions classify names =
     concat (map (\<lambda>model_name. case classify model_name of
                                  Inl e \<Rightarrow> []
                                | Inr preds \<Rightarrow> concat preds) names)"

text \<open>
  A keyword list is safe for the one-sided lowering of line 73 when each keyword is in
  lower case already, or contains, once lowered, a lower-case keyword of the same list.
\<close>

definition keywords_case_safe :: "string list \<Rightarrow> bool" where
  "keywords_case_safe keywords =
     list_all (\<lambda>K. lower K = K \<or> list_ex (\<lambda>k. lower k = k \<and> str_in k (lower K)) keywords)
       keywords"

text \<open>
  Lines 23 to 37: \<^verbatim>\<open>__init__\<close>, without the creation of the backup directory and the
  loading of the models. Line 26 tests \<^verbatim>\<open>backup_dir\<close> for truth: \<^verbatim>\<open>None\<close> and the empty
  string both give the default backup directory \<^verbatim>\<open>source_dir / 'backup'\<close>.
\<close>

definition init_processor :: "string \<Rightarrow> string option \<Rightarrow> processor" where
  "init_processor source backup =
     \<lparr>source_dir = source,
      backup_dir = (case backup of
                      Some b \<Rightarrow> if b \<noteq> [] then b else source @ ''/backup''
                    | None \<Rightarrow> source @ ''/backup''),
      processed_count = 0,
      animal_categories = ANIMAL_CATEGORIES,
      landscape_categories = LANDSCAPE_CATEGORIES\<rparr>"

text \<open>An ensemble run in which the second model fails and the other two see a lion.\<close>

definition one_failing_run :: "string \<Rightarrow> classifier_run" where
  "one_failing_run model_name =
     (if model_name = ''efficient'' then Inl (Exception ''cannot identify image file'')
      else Inr [[(''n02129165'', ''lion'', 9 / 10)]])"

text \<open>An ensemble run in which every model sees a lion.\<close>

definition all_succeeding_run :: "string \<Rightarrow> classifier_run" where
  "all_succeeding_run model_name = Inr [[(''n02129165'', ''lion'', 9 / 10)]]"

text \<open>The landscape model's predictions on a picture of a lake in a valley.\<close>

definition lake_run :: "exn + prediction list" where
  "lake_run =
     Inr [(''n09332890'', ''lakeside'', 5 / 10), (''n09468604'', ''valley'', 2 / 10),
          (''n09246464'', ''cliff'', 1 / 10), (''n09332890'', ''lakeside'', 3 / 10),
          (''n09421951'', ''sandbar'', 15 / 100)]"

text \<open>
  The configured minimum confidence of a category: its own entry of
  \<open>CONFIDENCE_THRESHOLDS\<close>, or the default 0.35 when it has none.
\<close>

definition configured_threshold :: "string \<Rightarrow> real" where
  "configured_threshold category =
     (case map_of CONFIDENCE_THRESHOLDS category of Some t \<Rightarrow> t | None \<Rightarrow> 35 / 100)"

text \<open>An ensemble run in which every model sees a lion with confidence 0.35.\<close>

definition borderline_run :: "string \<Rightarrow> classifier_run" where
  "borderline_run model_name = Inr [[(''n02129165'', ''lion'', 35 / 100)]]"

text \<open>A directory with one image, and a world in which nothing fails.\<close>

definition example_image :: path where
  "example_image = \<lparr>parent = ''photos'', name = ''img_0001.jpg''\<rparr>"

definition example_files :: filesystem where
  "example_files = Map.empty(example_image \<mapsto> \<lparr>image_data = 1, user_comment = None\<rparr>)"

definition example_env :: "(string \<Rightarrow> classifier_run) \<Rightarrow> env" where
  "example_env run =
     \<lparr>copy_fails = False, classify_run = run, landscape_run = lake_run,
      today = ''20240115'', rename_error = None\<rparr>"

section \<open>Properties of the strings, the dictionaries and the loops\<close>

subsection \<open>Strings\<close>

lemma startswith_iff: "startswith k s \<longleftrightarrow> (\<exists>ss. s = k @ ss)"
  by (induction k s rule: startswith.induct) auto

lemma str_in_iff: "str_in k s \<longleftrightarrow> (\<exists>ps ss. s = ps @ k @ ss)"
proof (induction s)
  case Nil
  then show ?case by simp
next
  case (Cons y s)
  show ?case
  proof
    assume "str_in k (y # s)"
    then consider "startswith k (y # s)" | "str_in k s" by auto
    then show "\<exists>ps ss. y # s = ps @ k @ ss"
    proof cases
      case 1
      then obtain ss where "y # s = k @ ss" using startswith_iff by blast
      then have "y # s = [] @ k @ ss" by simp
      then show ?thesis by blast
    next
      case 2
      then obtain ps ss where "s = ps @ k @ ss" using Cons.IH by blast
      then have "y # s = (y # ps) @ k @ ss" by simp
      then show ?thesis by blast
    qed
  next
    assume "\<exists>ps ss. y # s = ps @ k @ ss"
    then obtain ps ss where eq: "y # s = ps @ k @ ss" by blast
    show "str_in k (y # s)"
    proof (cases ps)
      case Nil
      with eq have "startswith k (y # s)" using startswith_iff by auto
      then show ?thesis by simp
    next
      case (Cons p ps')
      with eq have "s = ps' @ k @ ss" by simp
      then have "str_in k s" using Cons.IH by blast
      then show ?thesis by simp
    qed
  qed
qed

lemma str_inI: "s = ps @ k @ ss \<Longrightarrow> str_in k s"
  unfolding str_in_iff by blast

lemma str_inD: "str_in k s \<Longrightarrow> \<exists>ps ss. s = ps @ k @ ss"
  unfolding str_in_iff .

lemma str_in_trans:
  assumes "str_in a b" "str_in b c"
  shows "str_in a c"
proof -
  obtain p1 s1 where b: "b = p1 @ a @ s1" using str_inD[OF assms(1)] by blast
  obtain p2 s2 where c: "c = p2 @ b @ s2" using str_inD[OF assms(2)] by blast
  have "c = (p2 @ p1) @ a @ (s1 @ s2)" unfolding c b by simp
  then show ?thesis by (rule str_inI)
qed

lemma str_in_subset:
  assumes "str_in k s"
  shows "set k \<subseteq> set s"
proof -
  obtain ps ss where "s = ps @ k @ ss" using str_inD[OF assms] by blast
  then show ?thesis by auto
qed

lemma char_lower_cases:
  "char_lower c = c \<or> (c \<in> set ascii_uppercase \<and> char_lower c \<in> set ascii_lowercase)"
proof (cases "map_of (zip ascii_uppercase ascii_lowercase) c")
  case None
  then show ?thesis by (simp add: char_lower_def)
next
  case (Some l)
  then have "(c, l) \<in> set (zip ascii_uppercase ascii_lowercase)" by (rule map_of_SomeD)
  then have "c \<in> set ascii_uppercase" "l \<in> set ascii_lowercase"
    by (auto dest: set_zip_leftD set_zip_rightD)
  with Some show ?thesis by (simp add: char_lower_def)
qed

lemma char_lower_fix: "c \<notin> set ascii_uppercase \<Longrightarrow> char_lower c = c"
  using char_lower_cases by blast

lemma lowercase_not_upper: "c \<in> set ascii_lowercase \<Longrightarrow> c \<notin> set ascii_uppercase"
  by (auto simp: ascii_uppercase_def ascii_lowercase_def)

lemma char_lower_idem: "char_lower (char_lower c) = char_lower c"
proof (cases "char_lower c = c")
  case True
  then show ?thesis by simp
next
  case False
  then have "char_lower c \<in> set ascii_lowercase" using char_lower_cases[of c] by blast
  then show ?thesis by (intro char_lower_fix lowercase_not_upper)
qed

lemma lower_fixed_if_in_lower:
  assumes "str_in k (lower s)"
  shows "lower k = k"
proof -
  have "\<forall>c\<in>set k. char_lower c = c"
  proof
    fix c assume "c \<in> set k"
    then have "c \<in> set (lower s)" using str_in_subset[OF assms] by blast
    then obtain c' where "c = char_lower c'" by (auto simp: lower_def)
    then show "char_lower c = c" by (simp add: char_lower_idem)
  qed
  then show ?thesis unfolding lower_def by (simp add: map_idI)
qed


subsection \<open>Dictionaries\<close>

lemma map_of_append_score:
  "map_of (append_score c v d) =
     (map_of d)(c \<mapsto> (case map_of d c of None \<Rightarrow> [] | Some vs \<Rightarrow> vs) @ [v])"
  by (induction d) (auto simp: fun_eq_iff)

lemma keys_append_score: "map fst (append_score c v d) = note_seen c (map fst d)"
proof (induction d)
  case Nil
  then show ?case by (simp add: note_seen_def)
next
  case (Cons a d)
  obtain k vs where a: "a = (k, vs)" by (cases a)
  show ?case
  proof (cases "k = c")
    case True
    then show ?thesis by (simp add: a note_seen_def)
  next
    case False
    then show ?thesis using Cons.IH by (simp add: a note_seen_def)
  qed
qed

lemma append_score_cases:
  "(k, vs) \<in> set (append_score c v d) \<Longrightarrow>
     (k, vs) \<in> set d \<or> (k = c \<and> (vs = [v] \<or> (\<exists>vs'. (c, vs') \<in> set d \<and> vs = vs' @ [v])))"
  by (induction d) (auto split: if_splits)

lemma distinct_note_seen: "distinct seen \<Longrightarrow> distinct (note_seen c seen)"
  by (simp add: note_seen_def)

lemma distinct_fold_note_seen: "distinct seen \<Longrightarrow> distinct (fold note_seen xs seen)"
  by (induction xs arbitrary: seen) (simp_all add: distinct_note_seen)

lemma set_fold_note_seen: "set (fold note_seen xs seen) = set seen \<union> set xs"
  by (induction xs arbitrary: seen) (auto simp: note_seen_def)


subsection \<open>The inner loop\<close>

lemma keys_match_categories:
  "map fst (match_categories cats label conf d) =
     fold note_seen (matched_categories cats label) (map fst d)"
proof (induction cats arbitrary: d)
  case Nil
  then show ?case by (simp add: matched_categories_def)
next
  case (Cons a cats)
  obtain c kws where a: "a = (c, kws)" by (cases a)
  show ?case
    by (simp add: a Cons.IH matched_categories_def keys_append_score)
qed

lemma map_of_match_categories_other:
  "c \<notin> fst ` set cats \<Longrightarrow> map_of (match_categories cats label conf d) c = map_of d c"
proof (induction cats arbitrary: d)
  case Nil
  then show ?case by simp
next
  case (Cons a cats)
  obtain c' kws where a: "a = (c', kws)" by (cases a)
  from Cons.prems a have "c' \<noteq> c" "c \<notin> fst ` set cats" by auto
  then show ?case by (simp add: a Cons.IH map_of_append_score)
qed

lemma map_of_match_categories:
  assumes "distinct (map fst cats)" "(c, kws) \<in> set cats"
  shows "map_of (match_categories cats label conf d) c =
     (if label_matches kws label
      then Some ((case map_of d c of None \<Rightarrow> [] | Some vs \<Rightarrow> vs) @ [conf])
      else map_of d c)"
  using assms
proof (induction cats arbitrary: d)
  case Nil
  then show ?case by simp
next
  case (Cons a cats)
  obtain c' kws' where a: "a = (c', kws')" by (cases a)
  show ?case
  proof (cases "c' = c")
    case True
    from Cons.prems a True have "c \<notin> fst ` set cats" by auto
    moreover from this Cons.prems a True have "kws' = kws" by (auto simp: image_iff)
    ultimately show ?thesis using a True
      by (simp add: map_of_match_categories_other map_of_append_score)
  next
    case False
    with Cons.prems a have "distinct (map fst cats)" "(c, kws) \<in> set cats" by auto
    then show ?thesis using a False Cons.IH
      by (simp add: map_of_append_score)
  qed
qed

lemma match_categories_cases:
  "(k, vs) \<in> set (match_categories cats label conf d) \<Longrightarrow>
     (k, vs) \<in> set d \<or>
     ((\<exists>kws. (k, kws) \<in> set cats \<and> label_matches kws label) \<and> vs \<noteq> [] \<and> last vs = conf)"
proof (induction cats arbitrary: d)
  case Nil
  then show ?case by simp
next
  case (Cons a cats)
  obtain c kws where a: "a = (c, kws)" by (cases a)
  let ?d = "if label_matches kws label then append_score c conf d else d"
  from Cons.prems a have "(k, vs) \<in> set (match_categories cats label conf ?d)" by simp
  then consider "(k, vs) \<in> set ?d"
    | "(\<exists>kws. (k, kws) \<in> set cats \<and> label_matches kws label) \<and> vs \<noteq> [] \<and> last vs = conf"
    using Cons.IH by blast
  then show ?case
  proof cases
    case 1
    then show ?thesis using append_score_cases[of k vs c conf d] a
      by (auto split: if_splits)
  next
    case 2
    then show ?thesis by auto
  qed
qed


subsection \<open>The outer loop\<close>

lemma keys_collect_scores:
  "map fst (collect_scores cats predictions d) =
     fold note_seen
       (concat (map (\<lambda>(class_id, label, conf). matched_categories cats label) predictions))
       (map fst d)"
  by (induction cats predictions d rule: collect_scores.induct)
     (simp_all add: keys_match_categories)

lemma keys_collect_scores_empty:
  "map fst (collect_scores cats predictions []) = first_seen_order cats predictions"
  by (simp add: keys_collect_scores first_seen_order_def)

lemma distinct_keys_collect_scores: "distinct (map fst (collect_scores cats predictions []))"
  by (simp add: keys_collect_scores distinct_fold_note_seen)

lemma nonempty_collect_scores:
  "\<forall>(k, vs)\<in>set d. vs \<noteq> [] \<Longrightarrow> \<forall>(k, vs)\<in>set (collect_scores cats predictions d). vs \<noteq> []"
proof (induction cats predictions d rule: collect_scores.induct)
  case (1 cats d)
  then show ?case by simp
next
  case (2 cats class_id label conf predictions d)
  have "\<forall>(k, vs)\<in>set (match_categories cats label conf d). vs \<noteq> []"
    using "2.prems" match_categories_cases[of _ _ cats label conf d] by fastforce
  then show ?case using "2.IH" by simp
qed

lemma values_collect_scores:
  assumes "\<forall>(k, vs)\<in>set d. set vs \<subseteq> S" "\<forall>(class_id, label, conf)\<in>set predictions. conf \<in> S"
  shows "\<forall>(k, vs)\<in>set (collect_scores cats predictions d). set vs \<subseteq> S"
  using assms
proof (induction cats predictions d rule: collect_scores.induct)
  case (1 cats d)
  then show ?case by simp
next
  case (2 cats class_id label conf predictions d)
  have step: "\<forall>(k, vs)\<in>set (match_categories cats label conf d'). set vs \<subseteq> S"
    if "\<forall>(k, vs)\<in>set d'. set vs \<subseteq> S" for d'
    using that
  proof (induction cats arbitrary: d')
    case Nil
    then show ?case by simp
  next
    case (Cons a cats)
    obtain c kws where a: "a = (c, kws)" by (cases a)
    have "conf \<in> S" using "2.prems"(2) by simp
    then have "\<forall>(k, vs)\<in>set (append_score c conf d'). set vs \<subseteq> S"
      using Cons.prems append_score_cases[of _ _ c conf d'] by fastforce
    then show ?case using Cons.IH Cons.prems by (simp add: a)
  qed
  show ?case using "2.IH" step[OF "2.prems"(1)] "2.prems"(2) by simp
qed

lemma map_of_collect_scores:
  assumes "distinct (map fst cats)" "(c, kws) \<in> set cats"
  shows "map_of (collect_scores cats predictions d) c =
     (let cs = confidences_where (label_matches kws) predictions
      in if cs = [] then map_of d c
         else Some ((case map_of d c of None \<Rightarrow> [] | Some vs \<Rightarrow> vs) @ cs))"
proof (induction predictions arbitrary: d)
  case Nil
  then show ?case by (simp add: confidences_where_def)
next
  case (Cons p predictions)
  obtain class_id label conf where p: "p = (class_id, label, conf)" by (cases p)
  show ?case
    by (simp add: p Cons.IH map_of_match_categories[OF assms] confidences_where_def Let_def)
qed

subsection \<open>The final scores\<close>

lemma dict_set_new: "k \<notin> fst ` set d \<Longrightarrow> dict_set k v d = d @ [(k, v)]"
  by (induction d) auto

lemma length_top_scores: "length (top_scores scores) = min 3 (length scores)"
  by (simp add: top_scores_def)

lemma top_scores_empty_iff: "top_scores scores = [] \<longleftrightarrow> scores = []"
proof -
  have "(top_scores scores = []) = (length (top_scores scores) = 0)" by simp
  also have "\<dots> = (scores = [])" unfolding length_top_scores by (cases scores) simp_all
  finally show ?thesis .
qed

lemma set_top_scores: "set (top_scores scores) \<subseteq> set scores"
  unfolding top_scores_def using set_take_subset[of 3 "rev (sort scores)"] by simp

lemma final_scores_eq:
  assumes "distinct (map fst ps)" "fst ` set ps \<inter> fst ` set acc = {}"
    and "\<forall>(k, vs)\<in>set ps. vs \<noteq> []"
  shows "final_scores ps acc = acc @ map (\<lambda>(c, s). (c, mean (top_scores s))) ps"
  using assms
proof (induction ps arbitrary: acc)
  case Nil
  then show ?case by simp
next
  case (Cons a ps)
  obtain c s where a: "a = (c, s)" by (cases a)
  from Cons.prems a have new: "c \<notin> fst ` set acc" and ne: "s \<noteq> []" by auto
  let ?acc = "acc @ [(c, mean (top_scores s))]"
  have "distinct (map fst ps)" using Cons.prems(1) by simp
  moreover have "fst ` set ps \<inter> fst ` set ?acc = {}"
    using Cons.prems(1,2) a by (auto simp: image_iff)
  moreover have "\<forall>(k, vs)\<in>set ps. vs \<noteq> []" using Cons.prems(3) by simp
  ultimately have "final_scores ps ?acc = ?acc @ map (\<lambda>(c, s). (c, mean (top_scores s))) ps"
    by (rule Cons.IH)
  then show ?case using new ne by (simp add: a top_scores_empty_iff dict_set_new)
qed

lemma aggregated_score_eq:
  "aggregated_score cats predictions =
     map (\<lambda>(c, s). (c, mean (top_scores s))) (collect_scores cats predictions [])"
proof -
  have "\<forall>(k, vs)\<in>set (collect_scores cats predictions []). vs \<noteq> []"
    by (rule nonempty_collect_scores) simp
  then show ?thesis
    unfolding aggregated_score_def
    using final_scores_eq[of "collect_scores cats predictions []" "[]"]
      distinct_keys_collect_scores[of cats predictions]
    by simp
qed

lemma keys_aggregated_score:
  "map fst (aggregated_score cats predictions) = first_seen_order cats predictions"
proof -
  have "map fst (aggregated_score cats predictions) = map fst (collect_scores cats predictions [])"
    by (simp add: aggregated_score_eq case_prod_unfold comp_def)
  then show ?thesis by (simp add: keys_collect_scores_empty)
qed

lemma map_of_aggregated_score:
  "map_of (aggregated_score cats predictions) c =
     map_option (\<lambda>s. mean (top_scores s)) (map_of (collect_scores cats predictions []) c)"
  by (simp add: aggregated_score_eq map_of_map)

subsection \<open>The best prediction\<close>

lemma max_by_score_split:
  "\<exists>pre post. best # xs = pre @ max_by_score best xs # post
     \<and> (\<forall>y\<in>set pre. snd y < snd (max_by_score best xs))
     \<and> (\<forall>y\<in>set post. snd y \<le> snd (max_by_score best xs))"
proof (induction xs arbitrary: best)
  case Nil
  have "[best] = [] @ best # []" by simp
  then show ?case by (metis max_by_score.simps(1) empty_iff list.set(1))
next
  case (Cons x xs)
  define b where "b = (if snd best < snd x then x else best)"
  define m where "m = max_by_score b xs"
  obtain pre post where split: "b # xs = pre @ m # post"
    and lt: "\<forall>y\<in>set pre. snd y < snd m" and le: "\<forall>y\<in>set post. snd y \<le> snd m"
    unfolding m_def using Cons.IH[of b] by blast
  have m: "max_by_score best (x # xs) = m" by (simp add: m_def b_def)
  have b_le: "snd b \<le> snd m"
  proof (cases pre)
    case Nil
    with split have "b = m" by simp
    then show ?thesis by simp
  next
    case (Cons p pre')
    with split have "b \<in> set pre" by simp
    with lt show ?thesis by fastforce
  qed
  show ?case
  proof (cases "snd best < snd x")
    case True
    then have bx: "b = x" by (simp add: b_def)
    have "best # x # xs = (best # pre) @ m # post" using split bx by simp
    moreover have "\<forall>y\<in>set (best # pre). snd y < snd m" using lt True b_le bx by auto
    ultimately show ?thesis unfolding m using le by blast
  next
    case False
    then have bb: "b = best" by (simp add: b_def)
    show ?thesis
    proof (cases pre)
      case Nil
      with split bb have mb: "m = best" and px: "post = xs" by auto
      have "best # x # xs = [] @ m # (x # xs)" using mb by simp
      moreover have "\<forall>y\<in>set (x # xs). snd y \<le> snd m"
        using le False mb px by auto
      moreover have "\<forall>y\<in>set []. snd y < snd m" by simp
      ultimately show ?thesis unfolding m by blast
    next
      case (Cons p pre')
      with split bb have p: "p = best" and rest: "xs = pre' @ m # post" by auto
      have "snd best < snd m" using lt Cons p by simp
      then have "\<forall>y\<in>set (best # x # pre'). snd y < snd m" using lt Cons False by auto
      moreover have "best # x # xs = (best # x # pre') @ m # post" using rest by simp
      ultimately show ?thesis unfolding m using le by blast
    qed
  qed
qed

lemma best_prediction_split:
  assumes "fp \<noteq> []"
  shows "\<exists>pre c v post. fp = pre @ (c, v) # post \<and> best_prediction fp = (Some c, v)
     \<and> (\<forall>y\<in>set pre. snd y < v) \<and> (\<forall>y\<in>set post. snd y \<le> v)"
proof -
  obtain x xs where fp: "fp = x # xs" using assms by (cases fp) auto
  obtain pre post where "x # xs = pre @ max_by_score x xs # post"
    "\<forall>y\<in>set pre. snd y < snd (max_by_score x xs)"
    "\<forall>y\<in>set post. snd y \<le> snd (max_by_score x xs)"
    using max_by_score_split[of x xs] by blast
  moreover have "best_prediction fp = (Some (fst (max_by_score x xs)), snd (max_by_score x xs))"
    by (simp add: fp best_prediction_def Let_def)
  ultimately show ?thesis unfolding fp by (metis prod.collapse)
qed


subsection \<open>Means\<close>

lemma sum_list_bounds:
  "\<forall>x\<in>set xs. a \<le> x \<and> x \<le> b \<Longrightarrow>
     a * real (length xs) \<le> sum_list xs \<and> sum_list xs \<le> b * real (length xs)"
  by (induction xs) (auto simp: algebra_simps)

lemma mean_bounds:
  assumes "xs \<noteq> []" "\<forall>x\<in>set xs. a \<le> x \<and> x \<le> b"
  shows "a \<le> mean xs \<and> mean xs \<le> b"
proof -
  have pos: "0 < real (length xs)" using assms(1) by simp
  have "a * real (length xs) \<le> sum_list xs" "sum_list xs \<le> b * real (length xs)"
    using sum_list_bounds[OF assms(2)] by simp_all
  then show ?thesis unfolding mean_def using pos
    by (simp add: pos_le_divide_eq pos_divide_le_eq)
qed

subsection \<open>Case of the keywords\<close>

lemma case_safe_matches:
  assumes "keywords_case_safe keywords"
  shows "label_matches keywords label = ci_matches keywords label"
proof
  assume "label_matches keywords label"
  then obtain k where k: "k \<in> set keywords" "str_in k (lower label)"
    by (auto simp: label_matches_def list_ex_iff)
  then have "lower k = k" using lower_fixed_if_in_lower by blast
  with k have "k \<in> set keywords" "str_in (lower k) (lower label)" by simp_all
  then show "ci_matches keywords label"
    unfolding ci_matches_def ci_substring_def list_ex_iff by blast
next
  assume "ci_matches keywords label"
  then obtain K where K: "K \<in> set keywords" "str_in (lower K) (lower label)"
    by (auto simp: ci_matches_def ci_substring_def list_ex_iff)
  from assms K(1) consider "lower K = K"
    | "\<exists>k\<in>set keywords. lower k = k \<and> str_in k (lower K)"
    by (auto simp: keywords_case_safe_def list_all_iff list_ex_iff)
  then show "label_matches keywords label"
  proof cases
    case 1
    with K show ?thesis by (auto simp: label_matches_def list_ex_iff)
  next
    case 2
    then obtain k where "k \<in> set keywords" "str_in k (lower K)" by blast
    with K(2) show ?thesis
      using str_in_trans[of k "lower K" "lower label"]
      by (auto simp: label_matches_def list_ex_iff)
  qed
qed

subsection \<open>Evaluating \<open>lower\<close> on literals\<close>

lemma char_lower_bit5:
  "char_lower (Char b0 b1 b2 b3 b4 True b6 b7) = Char b0 b1 b2 b3 b4 True b6 b7"
  by (rule char_lower_fix) (simp add: ascii_uppercase_def)

lemma char_lower_underscore: "char_lower CHR ''_'' = CHR ''_''"
  by (rule char_lower_fix) (simp add: ascii_uppercase_def)

lemma char_lower_upper:
  "char_lower CHR ''A'' = CHR ''a''" "char_lower CHR ''G'' = CHR ''g''"
  "char_lower CHR ''I'' = CHR ''i''" "char_lower CHR ''N'' = CHR ''n''"
  by (simp_all add: char_lower_def ascii_uppercase_def ascii_lowercase_def)

lemmas string_eval = lower_def char_lower_bit5 char_lower_underscore char_lower_upper

lemma animal_keywords_case_safe:
  "list_all (\<lambda>(category, keywords). keywords_case_safe keywords) ANIMAL_CATEGORIES"
  by (simp add: ANIMAL_CATEGORIES_def keywords_case_safe_def string_eval)

lemma distinct_animal_categories: "distinct (map fst ANIMAL_CATEGORIES)"
  by (simp add: ANIMAL_CATEGORIES_def)

lemma animal_matches_ci:
  assumes "(category, keywords) \<in> set ANIMAL_CATEGORIES"
  shows "label_matches keywords label = ci_matches keywords label"
proof -
  have "keywords_case_safe keywords"
    using animal_keywords_case_safe assms unfolding list_all_iff by blast
  then show ?thesis by (rule case_safe_matches)
qed

text \<open>
  The lowering of line 73 is one-sided: a keyword that has a capital letter never occurs
  in a lowered label. On its own, such a keyword matches nothing; in \<open>ANIMAL_CATEGORIES\<close>
  each of them stands beside a lower-case keyword that it contains.
\<close>

lemma mixed_case_keyword_alone:
  "\<not> label_matches [''Grevy_zebra''] ''Grevy_zebra'' \<and> ci_matches [''Grevy_zebra''] ''Grevy_zebra''"
  by (simp add: label_matches_def ci_matches_def ci_substring_def string_eval)

section \<open>The claims\<close>

text \<open>
  C1. For every prediction and every category of \<open>ANIMAL_CATEGORIES\<close>, the inner loop
  appends the prediction's confidence to the category's scores if and only if some
  keyword of the category is a case-insensitive substring of the raw label; over a whole
  prediction list, the scores collected for a category are the confidences of exactly
  those predictions. The label \<open>lion_cub\<close> is assigned to two categories.
\<close>

theorem keyword_assignment:
  assumes "(category, keywords) \<in> set ANIMAL_CATEGORIES"
  shows "map_of (match_categories ANIMAL_CATEGORIES label conf pred_scores) category =
           (if ci_matches keywords label
            then Some ((case map_of pred_scores category of None \<Rightarrow> [] | Some vs \<Rightarrow> vs) @ [conf])
            else map_of pred_scores category)
         \<and> map_of (collect_scores ANIMAL_CATEGORIES predictions []) category =
           (if confidences_where (ci_matches keywords) predictions = [] then None
            else Some (confidences_where (ci_matches keywords) predictions))
         \<and> match_categories ANIMAL_CATEGORIES ''lion_cub'' (1 / 2) [] =
           [(''lion'', [1 / 2]), (''lion_cub'', [1 / 2])]"
proof -
  have eq: "label_matches keywords = ci_matches keywords"
    using animal_matches_ci[OF assms] by (simp add: fun_eq_iff)
  have "map_of (match_categories ANIMAL_CATEGORIES label conf pred_scores) category =
           (if ci_matches keywords label
            then Some ((case map_of pred_scores category of None \<Rightarrow> [] | Some vs \<Rightarrow> vs) @ [conf])
            else map_of pred_scores category)"
    using map_of_match_categories[OF distinct_animal_categories assms] eq by simp
  moreover have "map_of (collect_scores ANIMAL_CATEGORIES predictions []) category =
           (if confidences_where (ci_matches keywords) predictions = [] then None
            else Some (confidences_where (ci_matches keywords) predictions))"
    using map_of_collect_scores[OF distinct_animal_categories assms, of predictions "[]"] eq
    by (simp add: Let_def)
  moreover have "match_categories ANIMAL_CATEGORIES ''lion_cub'' (1 / 2) [] =
           [(''lion'', [1 / 2]), (''lion_cub'', [1 / 2])]"
    by (simp add: ANIMAL_CATEGORIES_def label_matches_def string_eval)
  ultimately show ?thesis by blast
qed

theorem keyword_assignment_witness:
  "(''elephant'', [''elephant'', ''African_elephant'', ''Indian_elephant'', ''tusker''])
     \<in> set ANIMAL_CATEGORIES
   \<and> map_of (collect_scores ANIMAL_CATEGORIES
        [(''n02504458'', ''African_elephant'', 9 / 10), (''n02129604'', ''tiger'', 6 / 10),
         (''n01871265'', ''tusker'', 3 / 10)] []) ''elephant'' = Some [9 / 10, 3 / 10]"
proof -
  have mem: "(''elephant'', [''elephant'', ''African_elephant'', ''Indian_elephant'', ''tusker''])
     \<in> set ANIMAL_CATEGORIES"
    by (simp add: ANIMAL_CATEGORIES_def)
  show ?thesis
    using mem keyword_assignment[OF mem, of "[]" 0 "[]"
      "[(''n02504458'', ''African_elephant'', 9 / 10), (''n02129604'', ''tiger'', 6 / 10),
        (''n01871265'', ''tusker'', 3 / 10)]"]
    by (simp add: confidences_where_def ci_matches_def ci_substring_def string_eval)
qed

lemma first_seen_order_matched:
  assumes "c \<in> set (first_seen_order cats predictions)"
  shows "\<exists>keywords. (c, keywords) \<in> set cats \<and>
           (\<exists>(class_id, label, conf)\<in>set predictions. label_matches keywords label)"
proof -
  from assms obtain p where p: "p \<in> set predictions"
    and c: "c \<in> set (case p of (class_id, label, conf) \<Rightarrow> matched_categories cats label)"
    by (auto simp: first_seen_order_def set_fold_note_seen)
  obtain class_id label conf where pe: "p = (class_id, label, conf)" by (cases p)
  from c pe obtain kws where "(c, kws) \<in> set cats" "label_matches kws label"
    by (auto simp: matched_categories_def)
  with p pe show ?thesis by blast
qed

lemma aggregated_score_empty:
  assumes "\<forall>(class_id, label, conf)\<in>set predictions.
             \<forall>(category, keywords)\<in>set cats. \<not> label_matches keywords label"
  shows "aggregated_score cats predictions = []"
proof -
  have "first_seen_order cats predictions = []"
  proof (rule ccontr)
    assume "first_seen_order cats predictions \<noteq> []"
    then obtain c where "c \<in> set (first_seen_order cats predictions)"
      by (cases "first_seen_order cats predictions") auto
    then obtain kws p where "(c, kws) \<in> set cats" "p \<in> set predictions"
      "case p of (class_id, label, conf) \<Rightarrow> label_matches kws label"
      using first_seen_order_matched[of c cats predictions] by blast
    with assms show False by fastforce
  qed
  then have "map fst (aggregated_score cats predictions) = []"
    by (simp add: keys_aggregated_score)
  then show ?thesis by simp
qed

text \<open>
  C5. When no raw label matches any keyword of any category, the aggregated score is
  empty and the aggregator returns no category with confidence 0.
\<close>

theorem no_match_gives_none:
  assumes "\<forall>(class_id, label, conf)\<in>set predictions.
             \<forall>(category, keywords)\<in>set cats. \<not> label_matches keywords label"
  shows "aggregated_score cats predictions = [] \<and> aggregate cats predictions = (None, 0)"
  using aggregated_score_empty[OF assms] by (simp add: aggregate_def best_prediction_def)


theorem no_match_gives_none_witness:
  "list_all (\<lambda>(class_id, label, conf).
       list_all (\<lambda>(category, keywords). \<not> label_matches keywords label) ANIMAL_CATEGORIES)
     [(''n02129604'', ''tiger'', 6 / 10), (''n04037443'', ''racer'', 2 / 10 :: real)]
   \<and> aggregate ANIMAL_CATEGORIES
        [(''n02129604'', ''tiger'', 6 / 10), (''n04037443'', ''racer'', 2 / 10)] = (None, 0)"
proof -
  have h: "\<forall>(class_id, label, conf)\<in>set [(''n02129604'', ''tiger'', 6 / 10), (''n04037443'', ''racer'', 2 / 10 :: real)].
      \<forall>(category, keywords)\<in>set ANIMAL_CATEGORIES. \<not> label_matches keywords label"
    by (simp add: ANIMAL_CATEGORIES_def label_matches_def string_eval)
  have h': "list_all (\<lambda>(class_id, label, conf).
       list_all (\<lambda>(category, keywords). \<not> label_matches keywords label) ANIMAL_CATEGORIES)
     [(''n02129604'', ''tiger'', 6 / 10), (''n04037443'', ''racer'', 2 / 10 :: real)]"
    using h unfolding list_all_iff .
  show ?thesis by (rule conjI[OF h' conjunct2[OF no_match_gives_none[OF h]]])
qed


text \<open>
  C8. The categories of the aggregated score stand in first-seen order. When it is not
  empty, the returned category holds a maximal score, and every category before it in
  that order has a strictly smaller score: among several maximal categories the first
  seen is returned.
\<close>

theorem argmax_first_seen:
  assumes "aggregated_score cats predictions \<noteq> []"
  shows "map fst (aggregated_score cats predictions) = first_seen_order cats predictions
     \<and> (\<exists>pre c v post.
          aggregated_score cats predictions = pre @ (c, v) # post
          \<and> aggregate cats predictions = (Some c, v)
          \<and> (\<forall>y\<in>set pre. snd y < v) \<and> (\<forall>y\<in>set post. snd y \<le> v))"
  using best_prediction_split[OF assms] keys_aggregated_score[of cats predictions]
  unfolding aggregate_def by simp

theorem argmax_first_seen_witness:
  "aggregated_score ANIMAL_CATEGORIES
      [(''n02129165'', ''lion'', 1 / 2), (''n02391049'', ''zebra'', 1 / 2)] \<noteq> []
   \<and> first_seen_order ANIMAL_CATEGORIES
      [(''n02129165'', ''lion'', 1 / 2), (''n02391049'', ''zebra'', 1 / 2)] = [''lion'', ''zebra'']
   \<and> aggregate ANIMAL_CATEGORIES
      [(''n02129165'', ''lion'', 1 / 2), (''n02391049'', ''zebra'', 1 / 2)] = (Some ''lion'', 1 / 2)"
proof -
  have agg: "aggregated_score ANIMAL_CATEGORIES
      [(''n02129165'', ''lion'', 1 / 2), (''n02391049'', ''zebra'', 1 / 2)]
      = [(''lion'', 1 / 2), (''zebra'', 1 / 2)]"
    by (simp add: aggregated_score_def ANIMAL_CATEGORIES_def label_matches_def string_eval
        top_scores_def mean_def)
  then have ne: "aggregated_score ANIMAL_CATEGORIES
      [(''n02129165'', ''lion'', 1 / 2), (''n02391049'', ''zebra'', 1 / 2)] \<noteq> []" by simp
  from argmax_first_seen[OF ne] obtain pre c v post where
    keys: "map fst (aggregated_score ANIMAL_CATEGORIES
      [(''n02129165'', ''lion'', 1 / 2), (''n02391049'', ''zebra'', 1 / 2)])
      = first_seen_order ANIMAL_CATEGORIES
      [(''n02129165'', ''lion'', 1 / 2), (''n02391049'', ''zebra'', 1 / 2)]"
    and split: "[(''lion'', 1 / 2), (''zebra'', 1 / 2 :: real)] = pre @ (c, v) # post"
    and res: "aggregate ANIMAL_CATEGORIES
      [(''n02129165'', ''lion'', 1 / 2), (''n02391049'', ''zebra'', 1 / 2)] = (Some c, v)"
    and lt: "\<forall>y\<in>set pre. snd y < v" and le: "\<forall>y\<in>set post. snd y \<le> v"
    unfolding agg by blast
  have "pre = []"
  proof (cases pre)
    case Nil
    then show ?thesis .
  next
    case (Cons p pre')
    with split have p: "p = (''lion'', 1 / 2)" by simp
    show ?thesis
    proof (cases pre')
      case Nil
      with split Cons have "v = 1 / 2" by simp
      with lt Cons p show ?thesis by simp
    next
      case (Cons q pre'')
      with split \<open>pre = p # pre'\<close> show ?thesis by simp
    qed
  qed
  with split have "c = ''lion''" "v = 1 / 2" by simp_all
  with res keys agg ne show ?thesis by simp
qed

subsection \<open>The final scores with \<^verbatim>\<open>np.mean\<close> as a parameter\<close>

lemma final_scores_by_mean: "final_scores_by mean pred_scores acc = final_scores pred_scores acc"
  by (induction pred_scores arbitrary: acc) auto




subsection \<open>The binary64 rounding\<close>

text \<open>
  \<open>binade\<close> is the binary exponent, and \<open>fl64\<close> of a positive real lies within half a
  unit in the last place of it.
\<close>

lemma bit_length_pos: "0 < n \<Longrightarrow> 0 < bit_length n"
  by (subst bit_length.simps) simp

lemma bit_length_one: "bit_length (Suc 0) = Suc 0"
  by (simp add: bit_length.simps[of "Suc 0"] bit_length.simps[of 0])

lemma bit_length_bounds: "0 < n \<Longrightarrow> 2 ^ (bit_length n - 1) \<le> n \<and> n < 2 ^ bit_length n"
proof (induction n rule: bit_length.induct)
  case (1 n)
  show ?case
  proof (cases "n div 2 = 0")
    case True
    then have "n < 2" by (simp add: div_eq_0_iff)
    with "1.prems" have "n = 1" by arith
    then show ?thesis by (simp add: bit_length_one)
  next
    case False
    then have pos: "0 < n div 2" by simp
    from "1.prems" have n0: "n \<noteq> 0" by simp
    from "1.IH"[OF n0 pos]
    have lo: "2 ^ (bit_length (n div 2) - 1) \<le> n div 2"
      and hi: "n div 2 < 2 ^ bit_length (n div 2)" by simp_all
    have bl: "bit_length n = Suc (bit_length (n div 2))"
      using n0 by (subst bit_length.simps) simp
    have blpos: "0 < bit_length (n div 2)" using pos by (rule bit_length_pos)
    then have pw: "(2::nat) ^ bit_length (n div 2) = 2 * 2 ^ (bit_length (n div 2) - 1)"
      by (cases "bit_length (n div 2)") simp_all
    have "2 ^ bit_length (n div 2) \<le> 2 * (n div 2)" using lo pw by simp
    also have "\<dots> \<le> n" by arith
    finally have "2 ^ (bit_length n - 1) \<le> n" using bl by simp
    moreover have "n < 2 ^ bit_length n"
    proof -
      have "n < 2 * (n div 2 + 1)" by arith
      also have "\<dots> \<le> 2 * 2 ^ bit_length (n div 2)" using hi by simp
      finally show ?thesis using bl by simp
    qed
    ultimately show ?thesis by simp
  qed
qed

lemma binade_bounds:
  assumes "0 < x"
  shows "scale2 (binade x) \<le> x \<and> x < 2 * scale2 (binade x)"
proof (cases "1 \<le> x")
  case True
  define n where "n = nat \<lfloor>x\<rfloor>"
  have npos: "0 < n" using True by (simp add: n_def)
  have n_eq: "real n = of_int \<lfloor>x\<rfloor>" using True by (simp add: n_def)
  have fl: "real n \<le> x" "x < real n + 1"
    unfolding n_eq using of_int_floor_le[of x] floor_correct[of x] by linarith+
  from bit_length_bounds[OF npos]
  have lo: "2 ^ (bit_length n - 1) \<le> n" and hi: "n < 2 ^ bit_length n" by simp_all
  have blpos: "0 < bit_length n" using npos by (rule bit_length_pos)
  have b: "binade x = int (bit_length n - 1)" using True blpos by (simp add: binade_def n_def) 
  have s: "scale2 (binade x) = 2 ^ (bit_length n - 1)" by (simp add: b scale2_def)
  have "(2::real) ^ (bit_length n - 1) \<le> real n" using of_nat_mono[OF lo, where 'a = real] by simp
  then have c1: "scale2 (binade x) \<le> x" unfolding s using fl by linarith
  have "n + 1 \<le> 2 ^ bit_length n" using hi by simp
  then have "real n + 1 \<le> (2::real) ^ bit_length n"
    using of_nat_mono[of "n + 1" "2 ^ bit_length n", where 'a = real] by simp
  moreover have "(2::real) ^ bit_length n = 2 * 2 ^ (bit_length n - 1)"
    using blpos by (cases "bit_length n") simp_all
  ultimately have c2: "x < 2 * scale2 (binade x)" unfolding s using fl by linarith
  from c1 c2 show ?thesis by simp
next
  case False
  then have x1: "x < 1" by simp
  define m where "m = nat (\<lceil>1 / x\<rceil> - 1)"
  have inv: "1 < 1 / x" using assms x1 by simp
  then have "2 \<le> \<lceil>1 / x\<rceil>" by linarith
  then have mpos: "0 < m" by (simp add: m_def)
  have "0 \<le> \<lceil>1 / x\<rceil> - 1" using \<open>2 \<le> \<lceil>1 / x\<rceil>\<close> by linarith
  then have "int m = \<lceil>1 / x\<rceil> - 1" unfolding m_def by (rule nat_0_le)
  then have "real_of_int (int m) = of_int (\<lceil>1 / x\<rceil> - 1)" by (rule arg_cong)
  then have m_eq: "real m = of_int \<lceil>1 / x\<rceil> - 1" by simp
  have mm: "real m < 1 / x" "1 / x \<le> real m + 1"
    unfolding m_eq using ceiling_correct[of "1 / x"] by linarith+
  from bit_length_bounds[OF mpos]
  have lo: "2 ^ (bit_length m - 1) \<le> m" and hi: "m < 2 ^ bit_length m" by simp_all
  have blpos: "0 < bit_length m" using mpos by (rule bit_length_pos)
  have b: "binade x = - int (bit_length m)" using False by (simp add: binade_def m_def)
  have s: "scale2 (binade x) = 1 / 2 ^ bit_length m" using blpos by (simp add: b scale2_def)
  have "m + 1 \<le> 2 ^ bit_length m" using hi by simp
  then have "real m + 1 \<le> (2::real) ^ bit_length m"
    using of_nat_mono[of "m + 1" "2 ^ bit_length m", where 'a = real] by simp
  then have "1 / x \<le> 2 ^ bit_length m" using mm by linarith
  then have c1: "1 / 2 ^ bit_length m \<le> x"
    using assms by (simp add: field_simps)
  have "(2::real) ^ (bit_length m - 1) \<le> real m" using of_nat_mono[OF lo, where 'a = real] by simp
  then have "2 ^ (bit_length m - 1) < 1 / x" using mm by linarith
  then have "x * 2 ^ (bit_length m - 1) < 1" using assms by (simp add: field_simps)
  moreover have "(2::real) ^ bit_length m = 2 * 2 ^ (bit_length m - 1)"
    using blpos by (cases "bit_length m") simp_all
  ultimately have c2: "x < 2 * (1 / 2 ^ bit_length m)" by (simp add: field_simps)
  from c1 c2 s show ?thesis by simp
qed


lemma round_half_even_error: "\<bar>of_int (round_half_even q) - q\<bar> \<le> 1 / 2"
proof -
  have "of_int \<lfloor>q\<rfloor> \<le> q" "q < of_int \<lfloor>q\<rfloor> + 1"
    using floor_correct[of q] by simp_all
  then show ?thesis unfolding round_half_even_def Let_def by (auto simp: abs_le_iff)
qed

lemma scale2_inverse: "scale2 k * scale2 (- k) = 1"
  by (cases "0 \<le> k") (auto simp: scale2_def)

lemma scale2_pos: "0 < scale2 k"
  by (simp add: scale2_def)

lemma fl64_error:
  assumes "0 < x"
  shows "\<bar>fl64 x - x\<bar> \<le> scale2 (binade x - 52) / 2"
proof -
  define u where "u = scale2 (binade x - 52)"
  define r where "r = round_half_even (x * scale2 (52 - binade x))"
  have upos: "0 < u" unfolding u_def by (rule scale2_pos)
  have inv: "scale2 (52 - binade x) = 1 / u"
    using scale2_inverse[of "binade x - 52"] upos by (simp add: u_def field_simps)
  have fl: "fl64 x = of_int r * u"
    using assms by (simp add: fl64_def r_def u_def)
  have "\<bar>of_int r - x / u\<bar> \<le> 1 / 2"
    using round_half_even_error[of "x / u"] by (simp add: r_def inv)
  then have "\<bar>of_int r - x / u\<bar> * u \<le> 1 / 2 * u"
    using upos by (simp only: mult_le_cancel_right_pos)
  moreover have "\<bar>of_int r - x / u\<bar> * u = \<bar>of_int r * u - x\<bar>"
  proof -
    have "\<bar>of_int r - x / u\<bar> * u = \<bar>(of_int r - x / u) * u\<bar>"
      using upos by (simp add: abs_mult)
    also have "(of_int r - x / u) * u = of_int r * u - x"
      using upos by (simp add: field_simps)
    finally show ?thesis .
  qed
  ultimately show ?thesis unfolding fl u_def[symmetric] by simp
qed

subsection \<open>Evaluating the binary64 mean\<close>










text \<open>
  C6. When every confidence of the prediction list lies in [0, 1], every aggregated
  score lies in [0, 1]; and a category has an aggregated score only if it is a
  category of the map one of whose keywords matched the label of some prediction.
\<close>

theorem scores_bounded:
  assumes "\<forall>(class_id, label, conf)\<in>set predictions. 0 \<le> conf \<and> conf \<le> 1"
  shows "\<forall>(category, score)\<in>set (aggregated_score cats predictions).
           0 \<le> score \<and> score \<le> 1
           \<and> (\<exists>keywords. (category, keywords) \<in> set cats
                \<and> (\<exists>(class_id, label, conf)\<in>set predictions. label_matches keywords label))"
proof -
  have "0 \<le> score \<and> score \<le> 1
        \<and> (\<exists>keywords. (category, keywords) \<in> set cats
             \<and> (\<exists>(class_id, label, conf)\<in>set predictions. label_matches keywords label))"
    if mem: "(category, score) \<in> set (aggregated_score cats predictions)" for category score
  proof -
    from mem obtain vs where vs: "(category, vs) \<in> set (collect_scores cats predictions [])"
      and score: "score = mean (top_scores vs)"
      by (auto simp: aggregated_score_eq)
    have "\<forall>(k, vs)\<in>set (collect_scores cats predictions []). vs \<noteq> []"
      by (rule nonempty_collect_scores) simp
    with vs have ne: "top_scores vs \<noteq> []" by (auto simp: top_scores_empty_iff)
    have "\<forall>(class_id, label, conf)\<in>set predictions. conf \<in> {0..1}"
      using assms by auto
    then have "\<forall>(k, vs)\<in>set (collect_scores cats predictions []). set vs \<subseteq> {0..1}"
      by (intro values_collect_scores) simp_all
    with vs have "set vs \<subseteq> {0..1}" by auto
    then have "\<forall>x\<in>set (top_scores vs). 0 \<le> x \<and> x \<le> 1"
      using set_top_scores[of vs] by auto
    then have bounds: "0 \<le> score \<and> score \<le> 1"
      unfolding score using ne by (intro mean_bounds)
    from mem have "category \<in> set (map fst (aggregated_score cats predictions))" by force
    then have "category \<in> set (first_seen_order cats predictions)"
      by (simp only: keys_aggregated_score)
    then have "\<exists>keywords. (category, keywords) \<in> set cats
        \<and> (\<exists>(class_id, label, conf)\<in>set predictions. label_matches keywords label)"
      by (rule first_seen_order_matched)
    with bounds show ?thesis by blast
  qed
  then show ?thesis by blast
qed

theorem scores_bounded_witness:
  "list_all (\<lambda>(class_id, label, conf). 0 \<le> conf \<and> conf \<le> 1)
     [(''n02129165'', ''lion'', 1), (''n02118333'', ''lion_cub'', 0),
      (''n02129604'', ''tiger'', 1 / 2 :: real)]
   \<and> aggregated_score ANIMAL_CATEGORIES [(''n02129165'', ''lion'', 1), (''n02118333'', ''lion_cub'', 0),
        (''n02129604'', ''tiger'', 1 / 2)] = [(''lion'', 1 / 2), (''lion_cub'', 0)]
   \<and> list_all (\<lambda>(category, score).
           0 \<le> score \<and> score \<le> 1
           \<and> (\<exists>keywords. (category, keywords) \<in> set ANIMAL_CATEGORIES
                \<and> (\<exists>(class_id, label, conf)\<in>set [(''n02129165'', ''lion'', 1),
                       (''n02118333'', ''lion_cub'', 0), (''n02129604'', ''tiger'', 1 / 2 :: real)].
                      label_matches keywords label)))
        [(''lion'', 1 / 2), (''lion_cub'', 0 :: real)]"
proof -
  have h: "\<forall>(class_id, label, conf)\<in>set [(''n02129165'', ''lion'', 1), (''n02118333'', ''lion_cub'', 0),
        (''n02129604'', ''tiger'', 1 / 2 :: real)]. 0 \<le> conf \<and> conf \<le> 1"
    by simp
  have agg: "aggregated_score ANIMAL_CATEGORIES [(''n02129165'', ''lion'', 1), (''n02118333'', ''lion_cub'', 0),
        (''n02129604'', ''tiger'', 1 / 2)] = [(''lion'', 1 / 2), (''lion_cub'', 0)]"
    by (simp add: aggregated_score_def ANIMAL_CATEGORIES_def label_matches_def string_eval
        top_scores_def mean_def)
  have c: "\<forall>(category, score)\<in>set [(''lion'', 1 / 2), (''lion_cub'', 0 :: real)].
           0 \<le> score \<and> score \<le> 1
           \<and> (\<exists>keywords. (category, keywords) \<in> set ANIMAL_CATEGORIES
                \<and> (\<exists>(class_id, label, conf)\<in>set [(''n02129165'', ''lion'', 1),
                       (''n02118333'', ''lion_cub'', 0), (''n02129604'', ''tiger'', 1 / 2 :: real)].
                      label_matches keywords label))"
    using scores_bounded[OF h, of ANIMAL_CATEGORIES] unfolding agg .
  have h': "list_all (\<lambda>(class_id, label, conf). 0 \<le> conf \<and> conf \<le> 1)
     [(''n02129165'', ''lion'', 1), (''n02118333'', ''lion_cub'', 0),
      (''n02129604'', ''tiger'', 1 / 2 :: real)]"
    using h unfolding list_all_iff .
  have c': "list_all (\<lambda>(category, score).
           0 \<le> score \<and> score \<le> 1
           \<and> (\<exists>keywords. (category, keywords) \<in> set ANIMAL_CATEGORIES
                \<and> (\<exists>(class_id, label, conf)\<in>set [(''n02129165'', ''lion'', 1),
                       (''n02118333'', ''lion_cub'', 0), (''n02129604'', ''tiger'', 1 / 2 :: real)].
                      label_matches keywords label)))
        [(''lion'', 1 / 2), (''lion_cub'', 0 :: real)]"
    using c unfolding list_all_iff .
  show ?thesis by (rule conjI[OF h' conjI[OF agg c']])
qed

subsection \<open>The ensemble\<close>

lemma run_models_failure:
  "\<exists>m\<in>set names. isl (classify m) \<Longrightarrow> isl (run_models classify names acc)"
proof (induction names arbitrary: acc)
  case Nil
  then show ?case by simp
next
  case (Cons n names)
  show ?case
  proof (cases "classify n")
    case (Inl e)
    then show ?thesis by simp
  next
    case (Inr preds)
    with Cons.prems have "\<exists>m\<in>set names. isl (classify m)" by auto
    then show ?thesis using Cons.IH Inr by simp
  qed
qed

lemma run_models_success:
  "\<forall>m\<in>set names. \<not> isl (classify m) \<Longrightarrow>
     run_models classify names acc = Inr (acc @ surviving_predictions classify names)"
proof (induction names arbitrary: acc)
  case Nil
  then show ?case by (simp add: surviving_predictions_def)
next
  case (Cons n names)
  from Cons.prems obtain preds where n: "classify n = Inr preds" by (cases "classify n") auto
  from Cons.prems have "\<forall>m\<in>set names. \<not> isl (classify m)" by simp
  then have "run_models classify names (acc @ concat preds)
      = Inr ((acc @ concat preds) @ surviving_predictions classify names)"
    by (rule Cons.IH)
  then show ?case using n by (simp add: surviving_predictions_def)
qed

lemma predict_animal_failure:
  assumes "\<exists>m\<in>set model_names. isl (classify m)"
  shows "predict_animal self classify = ((None, 0), self)"
proof -
  obtain e where "run_models classify model_names [] = Inl e"
    using run_models_failure[OF assms, of "[]"] by (cases "run_models classify model_names []") auto
  then show ?thesis by (simp add: predict_animal_def)
qed

lemma predict_animal_success:
  assumes "\<forall>m\<in>set model_names. \<not> isl (classify m)"
  shows "predict_animal self classify =
     (aggregate (animal_categories self) (surviving_predictions classify model_names), self)"
  using run_models_success[OF assms, of "[]"] by (simp add: predict_animal_def)

lemma predict_animal_self: "snd (predict_animal self classify) = self"
  by (simp add: predict_animal_def split: sum.splits)

text \<open>
  C4, as stated, fails: when the second of the three models raises, \<^verbatim>\<open>_predict_animal\<close>
  returns \<^verbatim>\<open>(None, 0.0)\<close>, although the predictions of the two other models alone
  aggregate to the category lion with confidence 0.9.
\<close>

theorem one_failure_drops_all_counterexample:
  "fst (predict_animal (init_processor ''photos'' None) one_failing_run) = (None, 0)
   \<and> aggregate (animal_categories (init_processor ''photos'' None))
        (surviving_predictions one_failing_run model_names) = (Some ''lion'', 9 / 10)
   \<and> fst (predict_animal (init_processor ''photos'' None) one_failing_run)
      \<noteq> aggregate (animal_categories (init_processor ''photos'' None))
          (surviving_predictions one_failing_run model_names)"
proof -
  have a: "fst (predict_animal (init_processor ''photos'' None) one_failing_run) = (None, 0)"
    by (simp add: predict_animal_def model_names_def one_failing_run_def)
  have b: "aggregate (animal_categories (init_processor ''photos'' None))
        (surviving_predictions one_failing_run model_names) = (Some ''lion'', 9 / 10)"
    by (simp add: init_processor_def surviving_predictions_def model_names_def
        one_failing_run_def aggregate_def aggregated_score_def best_prediction_def
        ANIMAL_CATEGORIES_def label_matches_def string_eval top_scores_def mean_def)
  have c: "fst (predict_animal (init_processor ''photos'' None) one_failing_run)
      \<noteq> aggregate (animal_categories (init_processor ''photos'' None))
          (surviving_predictions one_failing_run model_names)"
    unfolding a b by simp
  show ?thesis by (rule conjI[OF a conjI[OF b c]])
qed

text \<open>
  C4, amended. When some model of the ensemble raises, \<^verbatim>\<open>_predict_animal\<close> returns
  \<^verbatim>\<open>(None, 0.0)\<close> and leaves the processor as it was: the predictions of all models are
  dropped, and no exception leaves the method. When no model raises, the predictions of
  all models are aggregated.
\<close>

theorem ensemble_failure:
  "((\<exists>m\<in>set model_names. isl (classify m)) \<longrightarrow>
      predict_animal self classify = ((None, 0), self))
   \<and> ((\<forall>m\<in>set model_names. \<not> isl (classify m)) \<longrightarrow>
      predict_animal self classify =
        (aggregate (animal_categories self) (surviving_predictions classify model_names), self))"
  using predict_animal_failure[of classify self] predict_animal_success[of classify self]
  by blast

theorem ensemble_failure_witness:
  "(\<exists>m\<in>set model_names. isl (one_failing_run m))
   \<and> predict_animal (init_processor ''photos'' None) one_failing_run
       = ((None, 0), init_processor ''photos'' None)
   \<and> list_all (\<lambda>m. \<not> isl (all_succeeding_run m)) model_names
   \<and> predict_animal (init_processor ''photos'' None) all_succeeding_run
       = ((Some ''lion'', 9 / 10), init_processor ''photos'' None)"
proof -
  have f: "\<exists>m\<in>set model_names. isl (one_failing_run m)"
    by (simp add: model_names_def one_failing_run_def)
  have s: "\<forall>m\<in>set model_names. \<not> isl (all_succeeding_run m)"
    by (simp add: all_succeeding_run_def)
  have s': "list_all (\<lambda>m. \<not> isl (all_succeeding_run m)) model_names"
    using s by (simp add: list_all_iff)
  have agg: "aggregate (animal_categories (init_processor ''photos'' None))
        (surviving_predictions all_succeeding_run model_names) = (Some ''lion'', 9 / 10)"
    by (simp add: init_processor_def surviving_predictions_def model_names_def
        all_succeeding_run_def aggregate_def aggregated_score_def best_prediction_def
        ANIMAL_CATEGORIES_def label_matches_def string_eval top_scores_def mean_def)
  note inst = ensemble_failure[of one_failing_run "init_processor ''photos'' None"]
    ensemble_failure[of all_succeeding_run "init_processor ''photos'' None"]
  have r1: "predict_animal (init_processor ''photos'' None) one_failing_run
       = ((None, 0), init_processor ''photos'' None)"
    by (rule mp[OF conjunct1[OF inst(1)] f])
  have r2: "predict_animal (init_processor ''photos'' None) all_succeeding_run
       = ((Some ''lion'', 9 / 10), init_processor ''photos'' None)"
    using mp[OF conjunct2[OF inst(2)] s] unfolding agg .
  show ?thesis by (rule conjI[OF f conjI[OF r1 conjI[OF s' r2]]])
qed

text \<open>
  C7. \<^verbatim>\<open>_predict_animal\<close> leaves the processor as it was, so a second run on the same
  classifier outputs returns the same result; the aggregated score is computed from the
  category map and the prediction list alone, starting from an empty dictionary, and is
  the same after a run as before it.
\<close>

theorem aggregator_idempotent:
  "snd (predict_animal self classify) = self
   \<and> predict_animal (snd (predict_animal self classify)) classify = predict_animal self classify
   \<and> aggregated_score (animal_categories (snd (predict_animal self classify))) predictions
       = aggregated_score (animal_categories self) predictions
   \<and> aggregate (animal_categories (snd (predict_animal self classify))) predictions
       = aggregate (animal_categories self) predictions"
  by (simp add: predict_animal_self)

subsection \<open>The landscape loops\<close>

lemma landscape_threshold: "dict_index CONFIDENCE_THRESHOLDS ''landscape'' = Inr (15 / 100)"
  by (simp add: dict_index_def CONFIDENCE_THRESHOLDS_def)

lemma landscape_categories_loop_result:
  "\<exists>detected. landscape_categories_loop cats label conf features = Inr detected
     \<and> (distinct features \<longrightarrow> distinct detected)
     \<and> set detected \<subseteq> set features
          \<union> {c. \<exists>kws. (c, kws) \<in> set cats \<and> list_ex (\<lambda>k. str_in k label) kws \<and> 15 / 100 < conf}"
proof (induction cats arbitrary: features)
  case Nil
  then show ?case by simp
next
  case (Cons a cats)
  obtain c kws where a: "a = (c, kws)" by (cases a)
  define features' where "features' =
    (if list_ex (\<lambda>k. str_in k label) kws \<and> 15 / 100 < conf \<and> c \<notin> set features
     then features @ [c] else features)"
  have step: "landscape_categories_loop (a # cats) label conf features
      = landscape_categories_loop cats label conf features'"
    by (simp add: a features'_def landscape_threshold)
  obtain detected where d: "landscape_categories_loop cats label conf features' = Inr detected"
    and dist: "distinct features' \<longrightarrow> distinct detected"
    and sub: "set detected \<subseteq> set features'
          \<union> {c. \<exists>kws. (c, kws) \<in> set cats \<and> list_ex (\<lambda>k. str_in k label) kws \<and> 15 / 100 < conf}"
    using Cons.IH[of features'] by blast
  have dist0: "distinct features \<longrightarrow> distinct features'" by (simp add: features'_def)
  have s2: "set features' \<subseteq> set features
      \<union> {c. \<exists>kws. (c, kws) \<in> set (a # cats) \<and> list_ex (\<lambda>k. str_in k label) kws \<and> 15 / 100 < conf}"
    by (auto simp: features'_def a)
  have s3: "{c. \<exists>kws. (c, kws) \<in> set cats \<and> list_ex (\<lambda>k. str_in k label) kws \<and> 15 / 100 < conf}
      \<subseteq> {c. \<exists>kws. (c, kws) \<in> set (a # cats) \<and> list_ex (\<lambda>k. str_in k label) kws \<and> 15 / 100 < conf}"
    by auto
  have A: "landscape_categories_loop (a # cats) label conf features = Inr detected"
    using step d by simp
  have B: "distinct features \<longrightarrow> distinct detected" using dist dist0 by blast
  have C: "set detected \<subseteq> set features
      \<union> {c. \<exists>kws. (c, kws) \<in> set (a # cats) \<and> list_ex (\<lambda>k. str_in k label) kws \<and> 15 / 100 < conf}"
  proof
    fix x assume "x \<in> set detected"
    with sub have "x \<in> set features'
        \<or> x \<in> {c. \<exists>kws. (c, kws) \<in> set cats \<and> list_ex (\<lambda>k. str_in k label) kws \<and> 15 / 100 < conf}"
      by blast
    with s2 s3 show "x \<in> set features
      \<union> {c. \<exists>kws. (c, kws) \<in> set (a # cats) \<and> list_ex (\<lambda>k. str_in k label) kws \<and> 15 / 100 < conf}"
      by blast
  qed
  show ?case by (intro exI[of _ detected] conjI) (rule A, rule B, rule C)
qed

lemma landscape_loop_result:
  "\<exists>detected. landscape_loop cats predictions features = Inr detected
     \<and> (distinct features \<longrightarrow> distinct detected)
     \<and> set detected \<subseteq> set features
          \<union> {c. \<exists>kws pred_class label conf. (c, kws) \<in> set cats
                \<and> (pred_class, label, conf) \<in> set predictions
                \<and> list_ex (\<lambda>k. str_in k (lower label)) kws \<and> 15 / 100 < conf}"
proof (induction predictions arbitrary: features)
  case Nil
  then show ?case by simp
next
  case (Cons p predictions)
  obtain pred_class label conf where p: "p = (pred_class, label, conf)" by (cases p)
  obtain features' where f: "landscape_categories_loop cats (lower label) conf features = Inr features'"
    and fdist: "distinct features \<longrightarrow> distinct features'"
    and fsub: "set features' \<subseteq> set features
          \<union> {c. \<exists>kws. (c, kws) \<in> set cats \<and> list_ex (\<lambda>k. str_in k (lower label)) kws
                \<and> 15 / 100 < conf}"
    using landscape_categories_loop_result[of cats "lower label" conf features] by blast
  obtain detected where d: "landscape_loop cats predictions features' = Inr detected"
    and dist: "distinct features' \<longrightarrow> distinct detected"
    and sub: "set detected \<subseteq> set features'
          \<union> {c. \<exists>kws pred_class label conf. (c, kws) \<in> set cats
                \<and> (pred_class, label, conf) \<in> set predictions
                \<and> list_ex (\<lambda>k. str_in k (lower label)) kws \<and> 15 / 100 < conf}"
    using Cons.IH[of features'] by blast
  have step: "landscape_loop cats (p # predictions) features = Inr detected"
    by (simp add: p f d)
  have "set detected \<subseteq> set features
          \<union> {c. \<exists>kws pred_class label conf. (c, kws) \<in> set cats
                \<and> (pred_class, label, conf) \<in> set (p # predictions)
                \<and> list_ex (\<lambda>k. str_in k (lower label)) kws \<and> 15 / 100 < conf}"
  proof
    fix c assume "c \<in> set detected"
    with sub consider "c \<in> set features'"
      | "\<exists>kws pred_class label conf. (c, kws) \<in> set cats
                \<and> (pred_class, label, conf) \<in> set predictions
                \<and> list_ex (\<lambda>k. str_in k (lower label)) kws \<and> 15 / 100 < conf"
      by blast
    then show "c \<in> set features
          \<union> {c. \<exists>kws pred_class label conf. (c, kws) \<in> set cats
                \<and> (pred_class, label, conf) \<in> set (p # predictions)
                \<and> list_ex (\<lambda>k. str_in k (lower label)) kws \<and> 15 / 100 < conf}"
    proof cases
      case 1
      with fsub consider "c \<in> set features"
        | "\<exists>kws. (c, kws) \<in> set cats \<and> list_ex (\<lambda>k. str_in k (lower label)) kws \<and> 15 / 100 < conf"
        by blast
      then show ?thesis
      proof cases
        case 1
        then show ?thesis by simp
      next
        case 2
        then obtain kws where "(c, kws) \<in> set cats" "list_ex (\<lambda>k. str_in k (lower label)) kws"
          "15 / 100 < conf" by blast
        moreover have "(pred_class, label, conf) \<in> set (p # predictions)" by (simp add: p)
        ultimately show ?thesis by blast
      qed
    next
      case 2
      then obtain kws pc l cf where "(c, kws) \<in> set cats" "(pc, l, cf) \<in> set predictions"
        "list_ex (\<lambda>k. str_in k (lower l)) kws" "15 / 100 < cf" by blast
      moreover from this have "(pc, l, cf) \<in> set (p # predictions)" by simp
      ultimately show ?thesis by blast
    qed
  qed
  with step fdist dist show ?case by blast
qed

lemma predict_landscape_cases:
  "(\<exists>predictions. run = Inr predictions
      \<and> landscape_loop (landscape_categories self) predictions []
          = Inr (predict_landscape self run))
   \<or> predict_landscape self run = []"
proof (cases run)
  case (Inl e)
  then show ?thesis by (simp add: predict_landscape_def)
next
  case (Inr preds)
  obtain detected where "landscape_loop (landscape_categories self) preds [] = Inr detected"
    using landscape_loop_result[of "landscape_categories self" preds "[]"] by blast
  with Inr show ?thesis by (simp add: predict_landscape_def)
qed


text \<open>
  C10. The list returned by \<^verbatim>\<open>_predict_landscape\<close> has no duplicates. Each of its entries
  is a key of the processor's landscape categories, which \<^verbatim>\<open>__init__\<close> sets to
  \<open>LANDSCAPE_CATEGORIES\<close>, and was triggered by a prediction of the landscape model whose
  label, in lower case, contains a keyword of that category and whose confidence is
  strictly greater than 0.15.
\<close>

theorem landscape_features_sound:
  "distinct (predict_landscape self run)
   \<and> (\<forall>category\<in>set (predict_landscape self run).
         category \<in> fst ` set (landscape_categories self)
         \<and> (\<exists>predictions keywords pred_class label conf.
               run = Inr predictions
               \<and> (category, keywords) \<in> set (landscape_categories self)
               \<and> (pred_class, label, conf) \<in> set predictions
               \<and> list_ex (\<lambda>keyword. str_in keyword (lower label)) keywords
               \<and> 15 / 100 < conf))
   \<and> (landscape_categories self = LANDSCAPE_CATEGORIES \<longrightarrow>
         set (predict_landscape self run) \<subseteq> fst ` set LANDSCAPE_CATEGORIES)"
proof -
  have main: "distinct (predict_landscape self run)
   \<and> (\<forall>category\<in>set (predict_landscape self run).
         category \<in> fst ` set (landscape_categories self)
         \<and> (\<exists>predictions keywords pred_class label conf.
               run = Inr predictions
               \<and> (category, keywords) \<in> set (landscape_categories self)
               \<and> (pred_class, label, conf) \<in> set predictions
               \<and> list_ex (\<lambda>keyword. str_in keyword (lower label)) keywords
               \<and> 15 / 100 < conf))"
  proof -
    consider predictions where "run = Inr predictions"
        "landscape_loop (landscape_categories self) predictions []
           = Inr (predict_landscape self run)"
      | "predict_landscape self run = []"
      using predict_landscape_cases[of run self] by blast
    then show ?thesis
    proof cases
      case 1
      obtain detected where d: "landscape_loop (landscape_categories self) predictions [] = Inr detected"
        and dist: "distinct detected"
        and sub: "set detected \<subseteq> {c. \<exists>kws pred_class label conf.
                (c, kws) \<in> set (landscape_categories self)
                \<and> (pred_class, label, conf) \<in> set predictions
                \<and> list_ex (\<lambda>k. str_in k (lower label)) kws \<and> 15 / 100 < conf}"
        using landscape_loop_result[of "landscape_categories self" predictions "[]"] by auto
      from d 1(2) have eq: "predict_landscape self run = detected" by simp
      have "category \<in> fst ` set (landscape_categories self)
         \<and> (\<exists>predictions keywords pred_class label conf.
               run = Inr predictions
               \<and> (category, keywords) \<in> set (landscape_categories self)
               \<and> (pred_class, label, conf) \<in> set predictions
               \<and> list_ex (\<lambda>keyword. str_in keyword (lower label)) keywords
               \<and> 15 / 100 < conf)"
        if "category \<in> set detected" for category
      proof -
        from that sub obtain kws pred_class label conf where
          k: "(category, kws) \<in> set (landscape_categories self)"
          and p: "(pred_class, label, conf) \<in> set predictions"
          and m: "list_ex (\<lambda>k. str_in k (lower label)) kws" and c: "15 / 100 < conf"
          by blast
        from k have "category \<in> fst ` set (landscape_categories self)" by force
        with 1(1) k p m c show ?thesis by blast
      qed
      with dist show ?thesis unfolding eq by blast
    next
      case 2
      then show ?thesis by simp
    qed
  qed
  then have "landscape_categories self = LANDSCAPE_CATEGORIES \<longrightarrow>
         set (predict_landscape self run) \<subseteq> fst ` set LANDSCAPE_CATEGORIES"
    by auto
  with main show ?thesis by (intro conjI) (rule conjunct1, assumption, rule conjunct2, assumption, assumption)
qed

theorem landscape_features_sound_witness:
  "predict_landscape (init_processor ''photos'' None) lake_run = [''lake'', ''valley'']
   \<and> landscape_categories (init_processor ''photos'' None) = LANDSCAPE_CATEGORIES
   \<and> distinct (predict_landscape (init_processor ''photos'' None) lake_run)
   \<and> set (predict_landscape (init_processor ''photos'' None) lake_run)
        \<subseteq> fst ` set LANDSCAPE_CATEGORIES"
proof -
  have v: "predict_landscape (init_processor ''photos'' None) lake_run = [''lake'', ''valley'']"
    by (simp add: predict_landscape_def init_processor_def lake_run_def LANDSCAPE_CATEGORIES_def
        landscape_threshold string_eval)
  have l: "landscape_categories (init_processor ''photos'' None) = LANDSCAPE_CATEGORIES"
    by (simp add: init_processor_def)
  note inst = landscape_features_sound[of "init_processor ''photos'' None" lake_run]
  have d: "distinct (predict_landscape (init_processor ''photos'' None) lake_run)"
    by (rule conjunct1[OF inst])
  have s: "set (predict_landscape (init_processor ''photos'' None) lake_run)
        \<subseteq> fst ` set LANDSCAPE_CATEGORIES"
    by (rule mp[OF conjunct2[OF conjunct2[OF inst]] l])
  show ?thesis by (rule conjI[OF v conjI[OF l conjI[OF d s]]])
qed

subsection \<open>The threshold gate\<close>

lemma default_threshold: "dict_index CONFIDENCE_THRESHOLDS ''default'' = Inr (35 / 100)"
  by (simp add: dict_index_def CONFIDENCE_THRESHOLDS_def)

lemma lookup_threshold_eq:
  "lookup_threshold animal_name =
     Inr (case animal_name of None \<Rightarrow> 35 / 100 | Some a \<Rightarrow> configured_threshold a)"
  by (simp add: lookup_threshold_def default_threshold dict_get_def configured_threshold_def
      split: option.splits)

lemma aggregate_category:
  assumes "aggregate cats predictions = (Some c, v)"
  shows "c \<in> fst ` set cats"
proof -
  have ne: "aggregated_score cats predictions \<noteq> []"
    using assms by (auto simp: aggregate_def best_prediction_def)
  obtain pre c' v' post where split: "aggregated_score cats predictions = pre @ (c', v') # post"
    and res: "best_prediction (aggregated_score cats predictions) = (Some c', v')"
    using best_prediction_split[OF ne] by blast
  from res assms have "c' = c" by (simp add: aggregate_def)
  with split have "c \<in> set (map fst (aggregated_score cats predictions))" by simp
  then have "c \<in> set (first_seen_order cats predictions)"
    by (simp only: keys_aggregated_score)
  then obtain kws where "(c, kws) \<in> set cats"
    using first_seen_order_matched[of c cats predictions] by blast
  then show ?thesis by force
qed

lemma predict_animal_category:
  assumes "predict_animal self classify = ((Some c, v), self1)"
  shows "c \<in> fst ` set (animal_categories self) \<and> self1 = self"
proof (cases "run_models classify model_names []")
  case (Inl e)
  with assms show ?thesis by (simp add: predict_animal_def)
next
  case (Inr preds)
  with assms have "aggregate (animal_categories self) preds = (Some c, v) \<and> self1 = self"
    by (auto simp: predict_animal_def)
  then show ?thesis using aggregate_category by blast
qed

lemma animal_category_names:
  "c \<in> fst ` set ANIMAL_CATEGORIES \<Longrightarrow> c \<noteq> [] \<and> c \<noteq> ''default'' \<and> c \<noteq> ''landscape''"
  by (auto simp: ANIMAL_CATEGORIES_def)

lemma animal_category_threshold:
  assumes "c \<in> fst ` set ANIMAL_CATEGORIES"
  shows "configured_threshold c =
     (if c = ''lion_cub'' then 3 / 10 else if c = ''bird'' then 4 / 10 else 35 / 100)"
  using animal_category_names[OF assms]
  by (simp add: configured_threshold_def CONFIDENCE_THRESHOLDS_def)

lemma backup_image_True:
  assumes "backup_image self fs e img_path = (True, fs1)"
  shows "\<exists>f. fs img_path = Some f
     \<and> fs1 = fs(\<lparr>parent = backup_dir self, name = name img_path\<rparr> \<mapsto> f)"
  using assms by (auto simp: backup_image_def split: option.splits if_splits)

lemma process_single_image_gate:
  assumes "backup_image self fs e img_path = (True, fs1)"
    and "predict_animal self (classify_run e) = ((animal_name, conf), self1)"
    and "results = (initial_results img_path)\<lparr>animal := animal_name, confidence := Some conf,
           landscape_features := Some (predict_landscape self1 (landscape_run e))\<rparr>"
  shows "process_single_image self fs e img_path =
     (case animal_name of
        None \<Rightarrow> (low_confidence results, self1, fs1)
      | Some a \<Rightarrow>
          if a \<noteq> [] \<and> configured_threshold a < conf
          then rename_and_tag self1 fs1 e img_path results a conf
                 (predict_landscape self1 (landscape_run e))
          else (low_confidence results, self1, fs1))"
  using assms
  by (simp add: process_single_image_def lookup_threshold_eq Let_def split: option.splits)

lemma rename_and_tag_count:
  "processed_count (fst (snd (rename_and_tag self fs e img_path results a conf features)))
     = processed_count self + 1"
  by (cases "rename_error e")
     (auto simp: rename_and_tag_def generate_new_filename_def Let_def split: exn.splits)


lemma lion_run_result:
  "predict_animal (init_processor ''photos'' None) all_succeeding_run
     = ((Some ''lion'', 9 / 10), init_processor ''photos'' None)"
  by (simp add: predict_animal_def init_processor_def model_names_def all_succeeding_run_def
      aggregate_def aggregated_score_def best_prediction_def ANIMAL_CATEGORIES_def
      label_matches_def string_eval top_scores_def mean_def)

lemma lake_run_features:
  "predict_landscape (init_processor ''photos'' None) lake_run = [''lake'', ''valley'']"
  by (simp add: predict_landscape_def init_processor_def lake_run_def LANDSCAPE_CATEGORIES_def
      landscape_threshold string_eval)

text \<open>
  C3. Once the backup has succeeded and \<^verbatim>\<open>_predict_animal\<close> has returned a category of
  \<open>ANIMAL_CATEGORIES\<close>, \<^verbatim>\<open>process_single_image\<close> runs the renaming and tagging branch if
  and only if the confidence is strictly greater than the configured threshold of the
  category (0.3 for lion_cub, 0.4 for bird, the default 0.35 for every other category);
  otherwise, and in particular when the confidence equals the threshold, it takes the
  low-confidence branch. The counter of renamed files moves exactly when the gate
  accepts, and a successful result implies an accepted gate.
\<close>

theorem threshold_gate:
  assumes "backup_image self fs e img_path = (True, fs1)"
    and "predict_animal self (classify_run e) = ((Some category, conf), self1)"
    and "animal_categories self = ANIMAL_CATEGORIES"
    and "results = (initial_results img_path)\<lparr>animal := Some category, confidence := Some conf,
           landscape_features := Some (predict_landscape self (landscape_run e))\<rparr>"
  shows "process_single_image self fs e img_path =
           (if configured_threshold category < conf
            then rename_and_tag self fs1 e img_path results category conf
                   (predict_landscape self (landscape_run e))
            else (low_confidence results, self, fs1))
         \<and> (conf = configured_threshold category \<longrightarrow>
              process_single_image self fs e img_path = (low_confidence results, self, fs1))
         \<and> processed_count (fst (snd (process_single_image self fs e img_path))) =
              processed_count self + (if configured_threshold category < conf then 1 else 0)
         \<and> (success (fst (process_single_image self fs e img_path)) \<longrightarrow>
              configured_threshold category < conf)
         \<and> configured_threshold category =
              (if category = ''lion_cub'' then 3 / 10
               else if category = ''bird'' then 4 / 10 else 35 / 100)"
proof -
  from predict_animal_category[OF assms(2)] assms(3)
  have cat: "category \<in> fst ` set ANIMAL_CATEGORIES" and self1: "self1 = self" by simp_all
  from animal_category_names[OF cat] have ne: "category \<noteq> []" by simp
  have gate: "process_single_image self fs e img_path =
           (if configured_threshold category < conf
            then rename_and_tag self fs1 e img_path results category conf
                   (predict_landscape self (landscape_run e))
            else (low_confidence results, self, fs1))"
    using process_single_image_gate[OF assms(1) assms(2), of results] assms(4) ne self1
    by simp
  have eq: "conf = configured_threshold category \<longrightarrow>
      process_single_image self fs e img_path = (low_confidence results, self, fs1)"
    using gate by simp
  have count: "processed_count (fst (snd (process_single_image self fs e img_path))) =
      processed_count self + (if configured_threshold category < conf then 1 else 0)"
    unfolding gate by (simp add: rename_and_tag_count)
  have "\<not> success (low_confidence results)"
    by (simp add: assms(4) low_confidence_def initial_results_def)
  then have succ: "success (fst (process_single_image self fs e img_path)) \<longrightarrow>
      configured_threshold category < conf"
    unfolding gate by simp
  note thr = animal_category_threshold[OF cat]
  show ?thesis by (rule conjI[OF gate conjI[OF eq conjI[OF count conjI[OF succ thr]]]])
qed

theorem threshold_gate_witness:
  "backup_image (init_processor ''photos'' None) example_files
       (example_env all_succeeding_run) example_image
     = (True, example_files(\<lparr>parent = ''photos/backup'', name = ''img_0001.jpg''\<rparr>
                 \<mapsto> \<lparr>image_data = 1, user_comment = None\<rparr>))
   \<and> predict_animal (init_processor ''photos'' None) (classify_run (example_env all_succeeding_run))
     = ((Some ''lion'', 9 / 10), init_processor ''photos'' None)
   \<and> animal_categories (init_processor ''photos'' None) = ANIMAL_CATEGORIES
   \<and> configured_threshold ''lion'' = 35 / 100
   \<and> success (fst (process_single_image (init_processor ''photos'' None) example_files
         (example_env all_succeeding_run) example_image))
   \<and> new_name (fst (process_single_image (init_processor ''photos'' None) example_files
         (example_env all_succeeding_run) example_image))
       = Some ''lion_lake_valley_20240115_0001.jpg''
   \<and> processed_count (fst (snd (process_single_image (init_processor ''photos'' None)
         example_files (example_env all_succeeding_run) example_image))) = 1"
proof -
  let ?P = "init_processor ''photos'' None"
  let ?E = "example_env all_succeeding_run"
  let ?fs1 = "example_files(\<lparr>parent = ''photos/backup'', name = ''img_0001.jpg''\<rparr>
                 \<mapsto> \<lparr>image_data = 1, user_comment = None\<rparr>)"
  let ?R = "(initial_results example_image)\<lparr>animal := Some ''lion'', confidence := Some (9 / 10),
           landscape_features := Some (predict_landscape ?P (landscape_run ?E))\<rparr>"
  have b: "backup_image ?P example_files ?E example_image = (True, ?fs1)"
    by (simp add: backup_image_def example_files_def example_image_def example_env_def
        init_processor_def)
  have p: "predict_animal ?P (classify_run ?E) = ((Some ''lion'', 9 / 10), ?P)"
    using lion_run_result by (simp add: example_env_def)
  have a: "animal_categories ?P = ANIMAL_CATEGORIES" by (simp add: init_processor_def)
  note inst = threshold_gate[OF b p a, of ?R]
  have t: "configured_threshold ''lion'' = 35 / 100"
    using conjunct2[OF conjunct2[OF conjunct2[OF conjunct2[OF inst]]]] by simp
  have l: "predict_landscape ?P (landscape_run ?E) = [''lake'', ''valley'']"
    using lake_run_features by (simp add: example_env_def)
  have run: "process_single_image ?P example_files ?E example_image =
      rename_and_tag ?P ?fs1 ?E example_image ?R ''lion'' (9 / 10)
        (predict_landscape ?P (landscape_run ?E))"
    using conjunct1[OF inst] t by simp
  have s: "success (fst (process_single_image ?P example_files ?E example_image))"
    unfolding run by (simp add: rename_and_tag_def generate_new_filename_def Let_def example_env_def)
  have n: "new_name (fst (process_single_image ?P example_files ?E example_image))
       = Some ''lion_lake_valley_20240115_0001.jpg''"
    unfolding run l
    by (simp add: rename_and_tag_def generate_new_filename_def Let_def example_env_def
        example_image_def init_processor_def format_04d_def path_suffix_def string_eval
        numeral_3_eq_3)
  have c: "processed_count (fst (snd (process_single_image ?P example_files ?E example_image))) = 1"
    using conjunct1[OF conjunct2[OF conjunct2[OF inst]]] t by (simp add: init_processor_def)
  show ?thesis by (rule conjI[OF b conjI[OF p conjI[OF a conjI[OF t conjI[OF s conjI[OF n c]]]]]])
qed


lemma borderline_run_result:
  "predict_animal (init_processor ''photos'' None) borderline_run
     = ((Some ''lion'', 35 / 100), init_processor ''photos'' None)"
  by (simp add: predict_animal_def init_processor_def model_names_def borderline_run_def
      aggregate_def aggregated_score_def best_prediction_def ANIMAL_CATEGORIES_def
      label_matches_def string_eval top_scores_def mean_def)

text \<open>
  C9. Once the backup has succeeded, an image whose prediction is rejected (no category,
  or a confidence not strictly above the configured threshold of the category) gets the
  result record with \<open>success = False\<close>, no new name and the error
  \<open>Low confidence prediction\<close>. The processor is unchanged, and the file system differs
  from the initial one by the backup copy only: the image is still at its path, with
  its data and its metadata as before.
\<close>

theorem low_confidence_rejection:
  assumes "backup_image self fs e img_path = (True, fs1)"
    and "predict_animal self (classify_run e) = ((animal_name, conf), self1)"
    and "animal_name = None
         \<or> (\<exists>category. animal_name = Some category \<and> conf \<le> configured_threshold category)"
  shows "process_single_image self fs e img_path =
           (\<lparr>original_name = name img_path, success = False, new_name = None,
             animal = animal_name, confidence = Some conf,
             landscape_features = Some (predict_landscape self (landscape_run e)),
             error = Some ''Low confidence prediction''\<rparr>, self, fs1)
         \<and> fs1 img_path = fs img_path
         \<and> (\<forall>p. p \<noteq> \<lparr>parent = backup_dir self, name = name img_path\<rparr> \<longrightarrow> fs1 p = fs p)"
proof -
  have self1: "self1 = self" using predict_animal_self[of self "classify_run e"] assms(2) by simp
  define results where "results = (initial_results img_path)\<lparr>animal := animal_name,
      confidence := Some conf,
      landscape_features := Some (predict_landscape self1 (landscape_run e))\<rparr>"
  have "process_single_image self fs e img_path = (low_confidence results, self1, fs1)"
    using process_single_image_gate[OF assms(1) assms(2) results_def] assms(3)
    by (auto split: option.splits)
  moreover have "low_confidence results =
      \<lparr>original_name = name img_path, success = False, new_name = None,
       animal = animal_name, confidence = Some conf,
       landscape_features = Some (predict_landscape self (landscape_run e)),
       error = Some ''Low confidence prediction''\<rparr>"
    by (simp add: results_def low_confidence_def initial_results_def self1)
  ultimately have r: "process_single_image self fs e img_path =
           (\<lparr>original_name = name img_path, success = False, new_name = None,
             animal = animal_name, confidence = Some conf,
             landscape_features = Some (predict_landscape self (landscape_run e)),
             error = Some ''Low confidence prediction''\<rparr>, self, fs1)"
    using self1 by simp
  obtain f where f: "fs img_path = Some f"
    and fs1: "fs1 = fs(\<lparr>parent = backup_dir self, name = name img_path\<rparr> \<mapsto> f)"
    using backup_image_True[OF assms(1)] by blast
  have same: "fs1 img_path = fs img_path" using f fs1 by simp
  have others: "\<forall>p. p \<noteq> \<lparr>parent = backup_dir self, name = name img_path\<rparr> \<longrightarrow> fs1 p = fs p"
    using fs1 by simp
  show ?thesis by (rule conjI[OF r conjI[OF same others]])
qed

theorem low_confidence_rejection_witness:
  "backup_image (init_processor ''photos'' None) example_files
       (example_env borderline_run) example_image
     = (True, example_files(\<lparr>parent = ''photos/backup'', name = ''img_0001.jpg''\<rparr>
                 \<mapsto> \<lparr>image_data = 1, user_comment = None\<rparr>))
   \<and> predict_animal (init_processor ''photos'' None) (classify_run (example_env borderline_run))
     = ((Some ''lion'', 35 / 100), init_processor ''photos'' None)
   \<and> (35 / 100 :: real) \<le> configured_threshold ''lion''
   \<and> fst (process_single_image (init_processor ''photos'' None) example_files
         (example_env borderline_run) example_image)
       = \<lparr>original_name = ''img_0001.jpg'', success = False, new_name = None,
          animal = Some ''lion'', confidence = Some (35 / 100),
          landscape_features = Some [''lake'', ''valley''],
          error = Some ''Low confidence prediction''\<rparr>
   \<and> snd (snd (process_single_image (init_processor ''photos'' None) example_files
         (example_env borderline_run) example_image)) example_image
       = Some \<lparr>image_data = 1, user_comment = None\<rparr>"
proof -
  let ?P = "init_processor ''photos'' None"
  let ?E = "example_env borderline_run"
  let ?fs1 = "example_files(\<lparr>parent = ''photos/backup'', name = ''img_0001.jpg''\<rparr>
                 \<mapsto> \<lparr>image_data = 1, user_comment = None\<rparr>)"
  have b: "backup_image ?P example_files ?E example_image = (True, ?fs1)"
    by (simp add: backup_image_def example_files_def example_image_def example_env_def
        init_processor_def)
  have p: "predict_animal ?P (classify_run ?E) = ((Some ''lion'', 35 / 100), ?P)"
    using borderline_run_result by (simp add: example_env_def)
  have t: "(35 / 100 :: real) \<le> configured_threshold ''lion''"
    by (simp add: configured_threshold_def CONFIDENCE_THRESHOLDS_def)
  have h: "Some ''lion'' = None
       \<or> (\<exists>category. Some ''lion'' = Some category \<and> 35 / 100 \<le> configured_threshold category)"
    using t by simp
  note inst = low_confidence_rejection[OF b p h]
  have l: "predict_landscape ?P (landscape_run ?E) = [''lake'', ''valley'']"
    using lake_run_features by (simp add: example_env_def)
  have r: "fst (process_single_image ?P example_files ?E example_image)
       = \<lparr>original_name = ''img_0001.jpg'', success = False, new_name = None,
          animal = Some ''lion'', confidence = Some (35 / 100),
          landscape_features = Some [''lake'', ''valley''],
          error = Some ''Low confidence prediction''\<rparr>"
    using conjunct1[OF inst] l by (simp add: example_image_def)
  have f: "snd (snd (process_single_image ?P example_files ?E example_image)) example_image
       = Some \<lparr>image_data = 1, user_comment = None\<rparr>"
    using conjunct1[OF inst] conjunct1[OF conjunct2[OF inst]]
    by (simp add: example_files_def)
  show ?thesis by (rule conjI[OF b conjI[OF p conjI[OF t conjI[OF r f]]]])
qed

end
